theory Spec2Isabelle
  imports Complex_Main "HOL-Library.Monad_Syntax"
begin

section \<open>Numbers\<close>

text \<open>
  The analyzer computes with C++ \<open>float\<close> (IEEE 754 binary32) and \<open>size_t\<close>.  The members
  of the mesh and of the report that hold a \<open>float\<close> are real numbers here, and \<open>size_t\<close> is
  a natural number (the counters and indices of the analyzer never get near \<open>2^64\<close>).  The
  float literals \<open>1e-6f\<close>, \<open>1e-5f\<close> and \<open>1e-4f\<close> stand for the binary32 numbers they denote,
  written as fractions with a power of two below, and
  \<open>std::numeric_limits<float>::max()\<close> is the largest finite binary32 number.

  Two readings of the arithmetic are given.  The passes over the faces and edges compute
  with exact real arithmetic (no rounding, no overflow, no NaN).  The overlap pass and the
  functions \<open>calculateTriangleArea32\<close>, \<open>calculateDistance32\<close>, \<open>calculateAspectRatio32\<close> and
  \<open>calculateUVStretch32\<close> compute in binary32 arithmetic as defined in the next section: every
  operation is rounded to nearest, ties to even, overflows to an infinity and propagates
  NaN.  The coordinates of a vertex are finite numbers throughout: a mesh holding an
  infinite or NaN coordinate is outside this development.
\<close>

type_synonym float = real

definition FLT_MAX :: float where
  "FLT_MAX = (2 - 1 / 2 ^ 23) * 2 ^ 127"

definition M_PI :: real where
  "M_PI = 3.14159265358979323846"

definition EPSILON :: float where
  \<comment> \<open>the literal \<open>1e-6f\<close> of the geometric guards\<close>
  "EPSILON = 8796093 / 2 ^ 43"

definition DEGENERATE_THRESHOLD :: float where
  \<comment> \<open>the literal \<open>1e-5f\<close>\<close>
  "DEGENERATE_THRESHOLD = 2748779 / 2 ^ 38"

definition HIGH_ASPECT_THRESHOLD :: float where
  "HIGH_ASPECT_THRESHOLD = 10"

definition LOW_VALENCE_THRESHOLD :: nat where
  "LOW_VALENCE_THRESHOLD = 3"

definition HIGH_VALENCE_THRESHOLD :: nat where
  "HIGH_VALENCE_THRESHOLD = 12"

definition OVERLAP_THRESHOLD :: float where
  \<comment> \<open>the literal \<open>1e-4f\<close>\<close>
  "OVERLAP_THRESHOLD = 13743895 / 2 ^ 37"

definition HIGH_STRETCH_THRESHOLD :: float where
  "HIGH_STRETCH_THRESHOLD = 4"

definition SHARP_ANGLE_THRESHOLD :: float where
  "SHARP_ANGLE_THRESHOLD = 30"

section \<open>Binary32 arithmetic\<close>

text \<open>
  A binary32 value is a finite real number, an infinity or NaN.  The two zeros are one
  value: the functions below never divide by a negative zero (their divisors are square
  roots, absolute values and a positive constant), and comparisons do not tell the zeros
  apart.  \<open>round32\<close> rounds a real number to the nearest binary32 number, ties to even: the
  unit in the last place of \<open>x\<close> is \<open>2 ^ (e - 23)\<close> for the exponent \<open>e\<close> of \<open>x\<close>, at least
  \<open>-126\<close> (subnormal numbers), and a result of magnitude \<open>2 ^ 128\<close> is an infinity.  Every
  operation rounds its exact result (no fused multiply-add, no extended precision).
\<close>

datatype f32 = Finite real | PlusInfinity | MinusInfinity | NaN

definition pow2 :: "int \<Rightarrow> real" where
  "pow2 k = (if 0 \<le> k then 2 ^ nat k else 1 / 2 ^ nat (- k))"

definition exponent32 :: "real \<Rightarrow> int" where
  "exponent32 x = max (- 126) \<lfloor>log 2 \<bar>x\<bar>\<rfloor>"

definition round_to_even :: "real \<Rightarrow> int" where
  "round_to_even y =
     (let f = \<lfloor>y\<rfloor>
      in if y - of_int f < 1 / 2 then f
         else if 1 / 2 < y - of_int f then f + 1
         else if even f then f else f + 1)"

definition round32 :: "real \<Rightarrow> f32" where
  "round32 x =
     (if x = 0 then Finite 0
      else let u = pow2 (exponent32 x - 23);
               r = of_int (round_to_even (\<bar>x\<bar> / u)) * u
           in if 2 ^ 128 \<le> r then (if 0 < x then PlusInfinity else MinusInfinity)
              else Finite (sgn x * r))"

fun fneg :: "f32 \<Rightarrow> f32" where
  "fneg (Finite x) = Finite (- x)"
| "fneg PlusInfinity = MinusInfinity"
| "fneg MinusInfinity = PlusInfinity"
| "fneg NaN = NaN"

fun fadd :: "f32 \<Rightarrow> f32 \<Rightarrow> f32" where
  "fadd (Finite x) (Finite y) = round32 (x + y)"
| "fadd NaN _ = NaN"
| "fadd _ NaN = NaN"
| "fadd PlusInfinity MinusInfinity = NaN"
| "fadd MinusInfinity PlusInfinity = NaN"
| "fadd PlusInfinity _ = PlusInfinity"
| "fadd MinusInfinity _ = MinusInfinity"
| "fadd _ PlusInfinity = PlusInfinity"
| "fadd _ MinusInfinity = MinusInfinity"

definition fsub :: "f32 \<Rightarrow> f32 \<Rightarrow> f32" where
  "fsub a b = fadd a (fneg b)"

fun fsign :: "f32 \<Rightarrow> real" where
  "fsign (Finite x) = sgn x"
| "fsign PlusInfinity = 1"
| "fsign MinusInfinity = - 1"
| "fsign NaN = 0"

fun fmul :: "f32 \<Rightarrow> f32 \<Rightarrow> f32" where
  "fmul (Finite x) (Finite y) = round32 (x * y)"
| "fmul NaN _ = NaN"
| "fmul _ NaN = NaN"
| "fmul a b =
     (if fsign a * fsign b = 0 then NaN
      else if 0 < fsign a * fsign b then PlusInfinity else MinusInfinity)"

fun fdiv :: "f32 \<Rightarrow> f32 \<Rightarrow> f32" where
  "fdiv (Finite x) (Finite y) =
     (if y = 0 then (if x = 0 then NaN else if 0 < x then PlusInfinity else MinusInfinity)
      else round32 (x / y))"
| "fdiv NaN _ = NaN"
| "fdiv _ NaN = NaN"
| "fdiv (Finite x) _ = Finite 0"
| "fdiv PlusInfinity (Finite y) = (if y < 0 then MinusInfinity else PlusInfinity)"
| "fdiv MinusInfinity (Finite y) = (if y < 0 then PlusInfinity else MinusInfinity)"
| "fdiv _ _ = NaN"

fun fsqrt :: "f32 \<Rightarrow> f32" where
  \<comment> \<open>\<open>std::sqrt\<close>\<close>
  "fsqrt (Finite x) = (if x < 0 then NaN else round32 (sqrt x))"
| "fsqrt PlusInfinity = PlusInfinity"
| "fsqrt _ = NaN"

fun fabs :: "f32 \<Rightarrow> f32" where
  \<comment> \<open>\<open>std::abs\<close>\<close>
  "fabs (Finite x) = Finite \<bar>x\<bar>"
| "fabs NaN = NaN"
| "fabs _ = PlusInfinity"

fun flt :: "f32 \<Rightarrow> f32 \<Rightarrow> bool" where
  \<comment> \<open>the comparison \<open><\<close>, false when an operand is NaN\<close>
  "flt (Finite x) (Finite y) = (x < y)"
| "flt NaN _ = False"
| "flt _ NaN = False"
| "flt PlusInfinity _ = False"
| "flt _ PlusInfinity = True"
| "flt _ MinusInfinity = False"
| "flt MinusInfinity _ = True"

definition std_max :: "f32 \<Rightarrow> f32 \<Rightarrow> f32" where
  \<comment> \<open>\<open>std::max(a, b)\<close> is \<open>(a < b) ? b : a\<close>\<close>
  "std_max a b = (if flt a b then b else a)"

fun valof :: "f32 \<Rightarrow> real" where
  \<comment> \<open>the number stored in a member of the report; 0 stands for an infinity or NaN\<close>
  "valof (Finite x) = x"
| "valof _ = 0"

section \<open>The mesh\<close>

text \<open>
  Modelled from the spec: the classes \<open>Mesh\<close>, \<open>Vertex\<close> and \<open>Face\<close> (src/models/Mesh.h) are
  not among the sources.  The analyzer reads, of a vertex, the members \<open>x y z\<close> (position),
  \<open>nx ny nz\<close> (shading normal) and \<open>u v\<close> (texture coordinate); of a face, the index lists
  \<open>vertexIndices\<close> and \<open>texCoordIndices\<close>; of a mesh, \<open>getName()\<close>, \<open>getVertices()\<close> and
  \<open>getFaces()\<close>.  The vertex members are named \<open>pos_x\<close>, ..., \<open>tex_v\<close> here, since one-letter
  constants would capture the variables of every statement.
\<close>

record Vertex =
  pos_x :: float
  pos_y :: float
  pos_z :: float
  norm_x :: float
  norm_y :: float
  norm_z :: float
  tex_u :: float
  tex_v :: float

record Face =
  vertexIndices :: "nat list"
  texCoordIndices :: "nat list"

record Mesh =
  getName :: string
  getVertices :: "Vertex list"
  getFaces :: "Face list"

text \<open>
  \<open>operator[]\<close> of \<open>std::vector\<close> with an index that is out of range is undefined
  behaviour.  Every read whose index is not bounded by the loop around it goes through
  \<open>at_index\<close>, and \<open>None\<close> is the result of a function that ran into such a read.
\<close>

definition at_index :: "'a list \<Rightarrow> nat \<Rightarrow> 'a option" where
  "at_index xs i = (if i < length xs then Some (xs ! i) else None)"

text \<open>A \<open>for\<close> loop whose body may run into undefined behaviour.\<close>

primrec for_each :: "'a list \<Rightarrow> ('a \<Rightarrow> 's \<Rightarrow> 's option) \<Rightarrow> 's \<Rightarrow> 's option" where
  "for_each [] body s = Some s"
| "for_each (x # xs) body s = (case body x s of None \<Rightarrow> None | Some s' \<Rightarrow> for_each xs body s')"

section \<open>The analyzer's data\<close>

datatype IssueType =
    DEGENERATE_FACE
  | HIGH_ASPECT_RATIO
  | OVERLAPPING_VERTICES
  | NON_MANIFOLD_EDGE
  | INVERTED_NORMAL
  | HIGH_VALENCE_VERTEX
  | LOW_VALENCE_VERTEX
  | TEXTURE_STRETCH
  | SHARP_ANGLE

record MeshIssue =
  type :: IssueType
  elementIndex :: nat
  severity :: float
  relatedElements :: "nat list"

record MeshQualityMetrics =
  minFaceArea :: float
  maxFaceArea :: float
  avgFaceArea :: float
  minAspectRatio :: float
  maxAspectRatio :: float
  avgAspectRatio :: float
  minDihedralAngle :: float
  maxDihedralAngle :: float
  nonManifoldEdgeCount :: nat
  degenerateFaceCount :: nat
  uvStretchFactor :: float

text \<open>
  \<open>std::map<std::pair<size_t, size_t>, std::vector<size_t>>\<close>: an association list kept
  in the order of its keys (pairs compare lexicographically), which is the order in which a
  range-for visits the entries.
\<close>

type_synonym EdgeFaceMap = "((nat \<times> nat) \<times> nat list) list"

record Analyzer =
  mesh :: Mesh
  minQualityThreshold :: float
  issues :: "MeshIssue list"
  metrics :: MeshQualityMetrics
  edgeFaceMap :: EdgeFaceMap
  vertexConnectivity :: "nat list list"

definition initialMetrics :: MeshQualityMetrics where
  "initialMetrics =
     \<lparr> minFaceArea = FLT_MAX, maxFaceArea = 0, avgFaceArea = 0,
       minAspectRatio = FLT_MAX, maxAspectRatio = 0, avgAspectRatio = 0,
       minDihedralAngle = FLT_MAX, maxDihedralAngle = 0,
       nonManifoldEdgeCount = 0, degenerateFaceCount = 0, uvStretchFactor = 0 \<rparr>"

definition MeshQualityAnalyzer :: "Mesh \<Rightarrow> float \<Rightarrow> Analyzer" where
  \<comment> \<open>the constructor; the source's default threshold is \<open>0.5f\<close>\<close>
  "MeshQualityAnalyzer inputMesh threshold =
     \<lparr> mesh = inputMesh, minQualityThreshold = threshold, issues = [],
       metrics = initialMetrics, edgeFaceMap = [], vertexConnectivity = [] \<rparr>"

definition getIssues :: "Analyzer \<Rightarrow> MeshIssue list" where
  "getIssues a = issues a"

definition getMetrics :: "Analyzer \<Rightarrow> MeshQualityMetrics" where
  "getMetrics a = metrics a"

definition getIssuesByType :: "Analyzer \<Rightarrow> IssueType \<Rightarrow> MeshIssue list" where
  "getIssuesByType a t =
     fold (\<lambda>issue filteredIssues.
             if type issue = t then filteredIssues @ [issue] else filteredIssues)
          (issues a) []"

definition getIssuesBySeverity :: "Analyzer \<Rightarrow> float \<Rightarrow> MeshIssue list" where
  "getIssuesBySeverity a minSeverity =
     fold (\<lambda>issue filteredIssues.
             if severity issue \<ge> minSeverity then filteredIssues @ [issue] else filteredIssues)
          (issues a) []"

section \<open>Topology\<close>

definition pair_less :: "nat \<times> nat \<Rightarrow> nat \<times> nat \<Rightarrow> bool" where
  "pair_less p q = (fst p < fst q \<or> (fst p = fst q \<and> snd p < snd q))"

fun map_push_back :: "nat \<times> nat \<Rightarrow> nat \<Rightarrow> EdgeFaceMap \<Rightarrow> EdgeFaceMap" where
  \<comment> \<open>\<open>edgeFaceMap[k].push_back(f)\<close>\<close>
  "map_push_back k f [] = [(k, [f])]"
| "map_push_back k f ((k', fs) # rest) =
     (if k = k' then (k', fs @ [f]) # rest
      else if pair_less k k' then (k, [f]) # (k', fs) # rest
      else (k', fs) # map_push_back k f rest)"

definition connect :: "nat \<Rightarrow> nat \<Rightarrow> nat list list \<Rightarrow> nat list list option" where
  \<comment> \<open>\<open>if (std::find(c[v1].begin(), c[v1].end(), v2) == c[v1].end()) c[v1].push_back(v2)\<close>\<close>
  "connect v1 v2 c =
     (if v1 < length c
      then Some (if v2 \<in> set (c ! v1) then c else c[v1 := c ! v1 @ [v2]])
      else None)"

definition topologyEdge :: "nat \<Rightarrow> nat list \<Rightarrow> nat \<Rightarrow> Analyzer \<Rightarrow> Analyzer option" where
  \<comment> \<open>the body of the inner loop of \<open>buildTopology\<close>, at position \<open>i\<close> of the ring \<open>vis\<close>\<close>
  "topologyEdge faceIdx vis i a =
     (let vertexCount = length vis;
          v1 = vis ! i;
          v2 = vis ! ((i + 1) mod vertexCount);
          (v1', v2') = (if v1 > v2 then (v2, v1) else (v1, v2))
      in do {
        c1 \<leftarrow> connect v1' v2' (vertexConnectivity a);
        c2 \<leftarrow> connect v2' v1' c1;
        Some (a\<lparr>edgeFaceMap := map_push_back (v1', v2') faceIdx (edgeFaceMap a),
                vertexConnectivity := c2\<rparr>)
      })"

definition topologyFace :: "Face list \<Rightarrow> nat \<Rightarrow> Analyzer \<Rightarrow> Analyzer option" where
  "topologyFace faces faceIdx a =
     (let vis = vertexIndices (faces ! faceIdx)
      in for_each [0..<length vis] (topologyEdge faceIdx vis) a)"

definition buildTopology :: "Analyzer \<Rightarrow> Analyzer option" where
  "buildTopology a =
     (let faces = getFaces (mesh a)
      in for_each [0..<length faces] (topologyFace faces)
           (a\<lparr>edgeFaceMap := [],
              vertexConnectivity := replicate (length (getVertices (mesh a))) []\<rparr>))"

section \<open>Geometric primitives\<close>

definition calculateTriangleArea :: "Mesh \<Rightarrow> nat \<Rightarrow> nat \<Rightarrow> nat \<Rightarrow> float option" where
  "calculateTriangleArea m v1Idx v2Idx v3Idx = do {
     v1 \<leftarrow> at_index (getVertices m) v1Idx;
     v2 \<leftarrow> at_index (getVertices m) v2Idx;
     v3 \<leftarrow> at_index (getVertices m) v3Idx;
     let ax = pos_x v2 - pos_x v1;
     let ay = pos_y v2 - pos_y v1;
     let az = pos_z v2 - pos_z v1;
     let bx = pos_x v3 - pos_x v1;
     let by = pos_y v3 - pos_y v1;
     let bz = pos_z v3 - pos_z v1;
     let cx = ay * bz - az * by;
     let cy = az * bx - ax * bz;
     let cz = ax * by - ay * bx;
     Some (0.5 * sqrt (cx * cx + cy * cy + cz * cz))
   }"

definition calculateDistance :: "Mesh \<Rightarrow> nat \<Rightarrow> nat \<Rightarrow> float option" where
  "calculateDistance m v1Idx v2Idx = do {
     v1 \<leftarrow> at_index (getVertices m) v1Idx;
     v2 \<leftarrow> at_index (getVertices m) v2Idx;
     let dx = pos_x v2 - pos_x v1;
     let dy = pos_y v2 - pos_y v1;
     let dz = pos_z v2 - pos_z v1;
     Some (sqrt (dx * dx + dy * dy + dz * dz))
   }"

definition calculateAspectRatio :: "Mesh \<Rightarrow> nat \<Rightarrow> nat \<Rightarrow> nat \<Rightarrow> float option" where
  "calculateAspectRatio m v1Idx v2Idx v3Idx = do {
     edge1 \<leftarrow> calculateDistance m v1Idx v2Idx;
     edge2 \<leftarrow> calculateDistance m v2Idx v3Idx;
     edge3 \<leftarrow> calculateDistance m v3Idx v1Idx;
     let maxEdge = max edge1 (max edge2 edge3);
     area \<leftarrow> calculateTriangleArea m v1Idx v2Idx v3Idx;
     let minHeight = (if area > EPSILON then 2 * area / maxEdge else 0);
     Some (if minHeight > EPSILON then maxEdge / minHeight else FLT_MAX)
   }"

definition firstNonShared :: "nat list \<Rightarrow> nat \<Rightarrow> nat \<Rightarrow> nat" where
  \<comment> \<open>the search loops of \<open>calculateDihedralAngle\<close>: the first index that is neither shared
      endpoint, and 0 when there is none\<close>
  "firstNonShared vis sharedV1Idx sharedV2Idx =
     (case find (\<lambda>idx. idx \<noteq> sharedV1Idx \<and> idx \<noteq> sharedV2Idx) vis of
        Some idx \<Rightarrow> idx
      | None \<Rightarrow> 0)"

definition calculateDihedralAngle :: "Mesh \<Rightarrow> nat \<Rightarrow> nat \<Rightarrow> nat \<Rightarrow> nat \<Rightarrow> float option" where
  "calculateDihedralAngle m face1Idx face2Idx sharedV1Idx sharedV2Idx = do {
     face1 \<leftarrow> at_index (getFaces m) face1Idx;
     let nonSharedV1 = firstNonShared (vertexIndices face1) sharedV1Idx sharedV2Idx;
     face2 \<leftarrow> at_index (getFaces m) face2Idx;
     let nonSharedV2 = firstNonShared (vertexIndices face2) sharedV1Idx sharedV2Idx;
     v1 \<leftarrow> at_index (getVertices m) sharedV1Idx;
     v2 \<leftarrow> at_index (getVertices m) sharedV2Idx;
     v3 \<leftarrow> at_index (getVertices m) nonSharedV1;
     v4 \<leftarrow> at_index (getVertices m) nonSharedV2;
     let a1x = pos_x v2 - pos_x v1;
     let a1y = pos_y v2 - pos_y v1;
     let a1z = pos_z v2 - pos_z v1;
     let b1x = pos_x v3 - pos_x v1;
     let b1y = pos_y v3 - pos_y v1;
     let b1z = pos_z v3 - pos_z v1;
     let n1x = a1y * b1z - a1z * b1y;
     let n1y = a1z * b1x - a1x * b1z;
     let n1z = a1x * b1y - a1y * b1x;
     let len1 = sqrt (n1x * n1x + n1y * n1y + n1z * n1z);
     let (n1x, n1y, n1z) =
       (if len1 > EPSILON then (n1x / len1, n1y / len1, n1z / len1) else (n1x, n1y, n1z));
     let a2x = pos_x v2 - pos_x v1;
     let a2y = pos_y v2 - pos_y v1;
     let a2z = pos_z v2 - pos_z v1;
     let b2x = pos_x v4 - pos_x v1;
     let b2y = pos_y v4 - pos_y v1;
     let b2z = pos_z v4 - pos_z v1;
     let n2x = a2y * b2z - a2z * b2y;
     let n2y = a2z * b2x - a2x * b2z;
     let n2z = a2x * b2y - a2y * b2x;
     let len2 = sqrt (n2x * n2x + n2y * n2y + n2z * n2z);
     let (n2x, n2y, n2z) =
       (if len2 > EPSILON then (n2x / len2, n2y / len2, n2z / len2) else (n2x, n2y, n2z));
     let dotProduct = n1x * n2x + n1y * n2y + n1z * n2z;
     let dotProduct = max (- 1) (min 1 dotProduct);
     Some (arccos dotProduct * 180 / M_PI)
   }"

definition calculateUVStretch :: "Mesh \<Rightarrow> nat \<Rightarrow> float option" where
  "calculateUVStretch m faceIdx = do {
     face \<leftarrow> at_index (getFaces m) faceIdx;
     if length (vertexIndices face) < 3 \<or> length (texCoordIndices face) < 3 then Some 0
     else do {
       let v1Idx = vertexIndices face ! 0;
       let v2Idx = vertexIndices face ! 1;
       let v3Idx = vertexIndices face ! 2;
       v1 \<leftarrow> at_index (getVertices m) v1Idx;
       v2 \<leftarrow> at_index (getVertices m) v2Idx;
       v3 \<leftarrow> at_index (getVertices m) v3Idx;
       surfaceArea \<leftarrow> calculateTriangleArea m v1Idx v2Idx v3Idx;
       let u1 = tex_u v1; let v1uv = tex_v v1;
       let u2 = tex_u v2; let v2uv = tex_v v2;
       let u3 = tex_u v3; let v3uv = tex_v v3;
       let uvArea = 0.5 * \<bar>(u2 - u1) * (v3uv - v1uv) - (u3 - u1) * (v2uv - v1uv)\<bar>;
       if surfaceArea < EPSILON \<or> uvArea < EPSILON then Some 0
       else Some (max (surfaceArea / uvArea) (uvArea / surfaceArea))
     }
   }"

subsection \<open>The guarded functions in binary32 arithmetic\<close>

text \<open>
  The same functions with every operation rounded to binary32.  The coordinates of the
  vertices are read as finite binary32 values.
\<close>

definition calculateTriangleArea32 :: "Mesh \<Rightarrow> nat \<Rightarrow> nat \<Rightarrow> nat \<Rightarrow> f32 option" where
  "calculateTriangleArea32 m v1Idx v2Idx v3Idx = do {
     v1 \<leftarrow> at_index (getVertices m) v1Idx;
     v2 \<leftarrow> at_index (getVertices m) v2Idx;
     v3 \<leftarrow> at_index (getVertices m) v3Idx;
     let ax = fsub (Finite (pos_x v2)) (Finite (pos_x v1));
     let ay = fsub (Finite (pos_y v2)) (Finite (pos_y v1));
     let az = fsub (Finite (pos_z v2)) (Finite (pos_z v1));
     let bx = fsub (Finite (pos_x v3)) (Finite (pos_x v1));
     let by = fsub (Finite (pos_y v3)) (Finite (pos_y v1));
     let bz = fsub (Finite (pos_z v3)) (Finite (pos_z v1));
     let cx = fsub (fmul ay bz) (fmul az by);
     let cy = fsub (fmul az bx) (fmul ax bz);
     let cz = fsub (fmul ax by) (fmul ay bx);
     Some (fmul (Finite (1 / 2)) (fsqrt (fadd (fadd (fmul cx cx) (fmul cy cy)) (fmul cz cz))))
   }"



definition calculateUVStretch32 :: "Mesh \<Rightarrow> nat \<Rightarrow> f32 option" where
  "calculateUVStretch32 m faceIdx = do {
     face \<leftarrow> at_index (getFaces m) faceIdx;
     if length (vertexIndices face) < 3 \<or> length (texCoordIndices face) < 3
     then Some (Finite 0)
     else do {
       let v1Idx = vertexIndices face ! 0;
       let v2Idx = vertexIndices face ! 1;
       let v3Idx = vertexIndices face ! 2;
       v1 \<leftarrow> at_index (getVertices m) v1Idx;
       v2 \<leftarrow> at_index (getVertices m) v2Idx;
       v3 \<leftarrow> at_index (getVertices m) v3Idx;
       surfaceArea \<leftarrow> calculateTriangleArea32 m v1Idx v2Idx v3Idx;
       let u1 = Finite (tex_u v1); let v1uv = Finite (tex_v v1);
       let u2 = Finite (tex_u v2); let v2uv = Finite (tex_v v2);
       let u3 = Finite (tex_u v3); let v3uv = Finite (tex_v v3);
       let uvArea = fmul (Finite (1 / 2))
         (fabs (fsub (fmul (fsub u2 u1) (fsub v3uv v1uv)) (fmul (fsub u3 u1) (fsub v2uv v1uv))));
       if flt surfaceArea (Finite EPSILON) \<or> flt uvArea (Finite EPSILON) then Some (Finite 0)
       else Some (std_max (fdiv surfaceArea uvArea) (fdiv uvArea surfaceArea))
     }
   }"

section \<open>Detection passes\<close>

definition degenerateFaceStep ::
  "Mesh \<Rightarrow> nat \<Rightarrow> float \<times> float \<times> float \<times> Analyzer \<Rightarrow> (float \<times> float \<times> float \<times> Analyzer) option" where
  \<comment> \<open>the loop body of \<open>checkDegenerateFaces\<close>; the state is
      \<open>(totalArea, minArea, maxArea, *this)\<close>\<close>
  "degenerateFaceStep m faceIdx st =
     (case st of (totalArea, minArea, maxArea, a) \<Rightarrow>
        let face = getFaces m ! faceIdx in
        if length (vertexIndices face) < 3 then Some st
        else do {
          area \<leftarrow> calculateTriangleArea m
                    (vertexIndices face ! 0) (vertexIndices face ! 1) (vertexIndices face ! 2);
          let a' =
            (if area < DEGENERATE_THRESHOLD
             then a\<lparr>issues := issues a @
                      [\<lparr>type = DEGENERATE_FACE, elementIndex = faceIdx,
                        severity = 1 - area / DEGENERATE_THRESHOLD,
                        relatedElements = vertexIndices face\<rparr>],
                    metrics := (metrics a)
                      \<lparr>degenerateFaceCount := degenerateFaceCount (metrics a) + 1\<rparr>\<rparr>
             else a);
          Some (totalArea + area, min minArea area, max maxArea area, a')
        })"

definition checkDegenerateFaces :: "Analyzer \<Rightarrow> Analyzer option" where
  "checkDegenerateFaces a = do {
     let faces = getFaces (mesh a);
     (totalArea, minArea, maxArea, a') \<leftarrow>
       for_each [0..<length faces] (degenerateFaceStep (mesh a)) (0, FLT_MAX, 0, a);
     Some (if length faces > 0
           then a'\<lparr>metrics := (metrics a')
                  \<lparr>minFaceArea := minArea, maxFaceArea := maxArea,
                   avgFaceArea := totalArea / real (length faces)\<rparr>\<rparr>
           else a')
   }"

definition aspectRatioStep ::
  "Mesh \<Rightarrow> nat \<Rightarrow> float \<times> float \<times> float \<times> Analyzer \<Rightarrow> (float \<times> float \<times> float \<times> Analyzer) option" where
  \<comment> \<open>the loop body of \<open>checkAspectRatio\<close>; the state is
      \<open>(totalAspectRatio, minAspectRatio, maxAspectRatio, *this)\<close>\<close>
  "aspectRatioStep m faceIdx st =
     (case st of (totalRatio, minRatio, maxRatio, a) \<Rightarrow>
        let face = getFaces m ! faceIdx in
        if length (vertexIndices face) < 3 then Some st
        else do {
          aspectRatio \<leftarrow> calculateAspectRatio m
                    (vertexIndices face ! 0) (vertexIndices face ! 1) (vertexIndices face ! 2);
          let a' =
            (if aspectRatio > HIGH_ASPECT_THRESHOLD
             then a\<lparr>issues := issues a @
                      [\<lparr>type = HIGH_ASPECT_RATIO, elementIndex = faceIdx,
                        severity = min 1 ((aspectRatio - HIGH_ASPECT_THRESHOLD) / 30),
                        relatedElements = vertexIndices face\<rparr>]\<rparr>
             else a);
          Some (totalRatio + aspectRatio, min minRatio aspectRatio, max maxRatio aspectRatio, a')
        })"

definition checkAspectRatio :: "Analyzer \<Rightarrow> Analyzer option" where
  "checkAspectRatio a = do {
     let faces = getFaces (mesh a);
     (totalRatio, minRatio, maxRatio, a') \<leftarrow>
       for_each [0..<length faces] (aspectRatioStep (mesh a)) (0, FLT_MAX, 0, a);
     Some (if length faces > 0
           then a'\<lparr>metrics := (metrics a')
                  \<lparr>minAspectRatio := minRatio, maxAspectRatio := maxRatio,
                   avgAspectRatio := totalRatio / real (length faces)\<rparr>\<rparr>
           else a')
   }"

definition nonManifoldStep :: "(nat \<times> nat) \<times> nat list \<Rightarrow> Analyzer \<Rightarrow> Analyzer" where
  "nonManifoldStep entry a =
     (case entry of (edge, facesUsingEdge) \<Rightarrow>
        if length facesUsingEdge > 2
        then a\<lparr>issues := issues a @
                 [\<lparr>type = NON_MANIFOLD_EDGE, elementIndex = fst edge,
                   severity = min 1 (real (length facesUsingEdge - 2) / 4),
                   relatedElements = [snd edge]\<rparr>],
               metrics := (metrics a)
                 \<lparr>nonManifoldEdgeCount := nonManifoldEdgeCount (metrics a) + 1\<rparr>\<rparr>
        else a)"

definition checkNonManifoldEdges :: "Analyzer \<Rightarrow> Analyzer" where
  "checkNonManifoldEdges a = fold nonManifoldStep (edgeFaceMap a) a"

definition vertexValenceStep :: "nat \<Rightarrow> Analyzer \<Rightarrow> Analyzer" where
  "vertexValenceStep vertexIdx a =
     (let valence = length (vertexConnectivity a ! vertexIdx);
          a1 = (if valence > 0 \<and> valence < LOW_VALENCE_THRESHOLD
                then a\<lparr>issues := issues a @
                         [\<lparr>type = LOW_VALENCE_VERTEX, elementIndex = vertexIdx,
                           severity = 1 - real valence / real LOW_VALENCE_THRESHOLD,
                           relatedElements = vertexConnectivity a ! vertexIdx\<rparr>]\<rparr>
                else a)
      in if valence > HIGH_VALENCE_THRESHOLD
         then a1\<lparr>issues := issues a1 @
                   [\<lparr>type = HIGH_VALENCE_VERTEX, elementIndex = vertexIdx,
                     severity = min 1 (real (valence - HIGH_VALENCE_THRESHOLD) / 8),
                     relatedElements = vertexConnectivity a ! vertexIdx\<rparr>]\<rparr>
         else a1)"

definition checkVertexValence :: "Analyzer \<Rightarrow> Analyzer" where
  "checkVertexValence a = fold vertexValenceStep [0..<length (vertexConnectivity a)] a"

definition overlapStep :: "Vertex list \<Rightarrow> nat \<Rightarrow> nat \<Rightarrow> Analyzer \<Rightarrow> Analyzer" where
  \<comment> \<open>the body of the inner loop of \<open>checkOverlappingVertices\<close>, in binary32 arithmetic; the
      severity of an issue is finite (lemma \<open>overlapSeverity_finite\<close>)\<close>
  "overlapStep vs i j a =
     (let v1 = vs ! i;
          v2 = vs ! j;
          dx = fsub (Finite (pos_x v2)) (Finite (pos_x v1));
          dy = fsub (Finite (pos_y v2)) (Finite (pos_y v1));
          dz = fsub (Finite (pos_z v2)) (Finite (pos_z v1));
          distSq = fadd (fadd (fmul dx dx) (fmul dy dy)) (fmul dz dz)
      in if flt distSq (fmul (Finite OVERLAP_THRESHOLD) (Finite OVERLAP_THRESHOLD))
         then a\<lparr>issues := issues a @
                 [\<lparr>type = OVERLAPPING_VERTICES, elementIndex = i,
                   severity = valof (fsub (Finite 1)
                     (fdiv (fsqrt distSq) (Finite OVERLAP_THRESHOLD))),
                   relatedElements = [j]\<rparr>]\<rparr>
         else a)"

definition checkOverlappingVertices :: "Analyzer \<Rightarrow> Analyzer" where
  "checkOverlappingVertices a =
     (let vs = getVertices (mesh a)
      in fold (\<lambda>i. fold (overlapStep vs i) [i + 1..<length vs]) [0..<length vs] a)"

definition normalDirectionStep :: "Mesh \<Rightarrow> nat \<Rightarrow> Analyzer \<Rightarrow> Analyzer option" where
  "normalDirectionStep m faceIdx a =
     (let face = getFaces m ! faceIdx in
      if length (vertexIndices face) < 3 then Some a
      else do {
        v1 \<leftarrow> at_index (getVertices m) (vertexIndices face ! 0);
        v2 \<leftarrow> at_index (getVertices m) (vertexIndices face ! 1);
        v3 \<leftarrow> at_index (getVertices m) (vertexIndices face ! 2);
        let e1x = pos_x v2 - pos_x v1;
        let e1y = pos_y v2 - pos_y v1;
        let e1z = pos_z v2 - pos_z v1;
        let e2x = pos_x v3 - pos_x v1;
        let e2y = pos_y v3 - pos_y v1;
        let e2z = pos_z v3 - pos_z v1;
        let nx = e1y * e2z - e1z * e2y;
        let ny = e1z * e2x - e1x * e2z;
        let nz = e1x * e2y - e1y * e2x;
        let len = sqrt (nx * nx + ny * ny + nz * nz);
        if len > EPSILON then do {
          let nx = nx / len;
          let ny = ny / len;
          let nz = nz / len;
          let vnx = (norm_x v1 + norm_x v2 + norm_x v3) / 3;
          let vny = (norm_y v1 + norm_y v2 + norm_y v3) / 3;
          let vnz = (norm_z v1 + norm_z v2 + norm_z v3) / 3;
          let vnLen = sqrt (vnx * vnx + vny * vny + vnz * vnz);
          if vnLen > EPSILON then do {
            let vnx = vnx / vnLen;
            let vny = vny / vnLen;
            let vnz = vnz / vnLen;
            let dotProduct = nx * vnx + ny * vny + nz * vnz;
            Some (if dotProduct < 0
                  then a\<lparr>issues := issues a @
                          [\<lparr>type = INVERTED_NORMAL, elementIndex = faceIdx,
                            severity = min 1 (- dotProduct),
                            relatedElements = vertexIndices face\<rparr>]\<rparr>
                  else a)
          } else Some a
        } else Some a
      })"

definition checkNormalDirection :: "Analyzer \<Rightarrow> Analyzer option" where
  "checkNormalDirection a =
     for_each [0..<length (getFaces (mesh a))] (normalDirectionStep (mesh a)) a"

definition uvStretchStep ::
  "Mesh \<Rightarrow> nat \<Rightarrow> float \<times> nat \<times> Analyzer \<Rightarrow> (float \<times> nat \<times> Analyzer) option" where
  \<comment> \<open>the loop body of \<open>checkUVStretch\<close>; the state is
      \<open>(totalStretch, stretchableCount, *this)\<close>\<close>
  "uvStretchStep m faceIdx st =
     (case st of (totalStretch, stretchableCount, a) \<Rightarrow> do {
        stretch \<leftarrow> calculateUVStretch m faceIdx;
        Some (if stretch > 0
              then (totalStretch + stretch, stretchableCount + 1,
                    if stretch > HIGH_STRETCH_THRESHOLD
                    then a\<lparr>issues := issues a @
                            [\<lparr>type = TEXTURE_STRETCH, elementIndex = faceIdx,
                              severity = min 1 ((stretch - HIGH_STRETCH_THRESHOLD) / 6),
                              relatedElements = vertexIndices (getFaces m ! faceIdx)\<rparr>]\<rparr>
                    else a)
              else st)
      })"

definition checkUVStretch :: "Analyzer \<Rightarrow> Analyzer option" where
  "checkUVStretch a = do {
     (totalStretch, stretchableCount, a') \<leftarrow>
       for_each [0..<length (getFaces (mesh a))] (uvStretchStep (mesh a)) (0, 0, a);
     Some (if stretchableCount > 0
           then a'\<lparr>metrics := (metrics a')
                  \<lparr>uvStretchFactor := totalStretch / real stretchableCount\<rparr>\<rparr>
           else a')
   }"

definition sharpAngleStep :: "Mesh \<Rightarrow> (nat \<times> nat) \<times> nat list \<Rightarrow> Analyzer \<Rightarrow> Analyzer option" where
  "sharpAngleStep m entry a =
     (case entry of (edge, facesUsingEdge) \<Rightarrow>
        if length facesUsingEdge = 2 then do {
          angle \<leftarrow> calculateDihedralAngle m
                     (facesUsingEdge ! 0) (facesUsingEdge ! 1) (fst edge) (snd edge);
          let a1 = (if angle < minDihedralAngle (metrics a) \<or> minDihedralAngle (metrics a) < 0.1
                    then a\<lparr>metrics := (metrics a)\<lparr>minDihedralAngle := angle\<rparr>\<rparr>
                    else a);
          let a2 = (if angle > maxDihedralAngle (metrics a1)
                    then a1\<lparr>metrics := (metrics a1)\<lparr>maxDihedralAngle := angle\<rparr>\<rparr>
                    else a1);
          Some (if angle < SHARP_ANGLE_THRESHOLD
                then a2\<lparr>issues := issues a2 @
                         [\<lparr>type = SHARP_ANGLE, elementIndex = fst edge,
                           severity = 1 - angle / SHARP_ANGLE_THRESHOLD,
                           relatedElements = [snd edge]\<rparr>]\<rparr>
                else a2)
        } else Some a)"

definition checkSharpAngles :: "Analyzer \<Rightarrow> Analyzer option" where
  "checkSharpAngles a = for_each (edgeFaceMap a) (sharpAngleStep (mesh a)) a"

definition calculateOverallMetrics :: "Analyzer \<Rightarrow> Analyzer" where
  "calculateOverallMetrics a = a"

definition analyzeQuality :: "Analyzer \<Rightarrow> Analyzer option" where
  "analyzeQuality a = do {
     a1 \<leftarrow> buildTopology (a\<lparr>issues := []\<rparr>);
     a2 \<leftarrow> checkDegenerateFaces a1;
     a3 \<leftarrow> checkAspectRatio a2;
     let a4 = checkNonManifoldEdges a3;
     let a5 = checkVertexValence a4;
     let a6 = checkOverlappingVertices a5;
     a7 \<leftarrow> checkNormalDirection a6;
     a8 \<leftarrow> checkUVStretch a7;
     a9 \<leftarrow> checkSharpAngles a8;
     Some (calculateOverallMetrics a9)
   }"

section \<open>Notions used in the statements\<close>

text \<open>
  The spec asks that the indices of every face be valid (below the number of vertices);
  the analyzer does not check it, and its behaviour is undefined otherwise.
\<close>

definition validMesh :: "Mesh \<Rightarrow> bool" where
  "validMesh m =
     (\<forall>f \<in> set (getFaces m). \<forall>i \<in> set (vertexIndices f). i < length (getVertices m))"

definition position :: "Vertex \<Rightarrow> float \<times> float \<times> float" where
  "position v = (pos_x v, pos_y v, pos_z v)"

text \<open>
  What the passes compute, written as functions of the mesh: the area of a triangle, the
  exact squared distance of two vertices and the squared distance that the overlap pass
  computes in binary32 arithmetic, the issues of one pair of vertices and of all pairs in
  the order of the double loop, the issue of one entry of the edge map, the issues of one
  vertex's valence, and the dihedral angles of the entries with exactly two faces.
\<close>

definition triangleArea :: "Vertex \<Rightarrow> Vertex \<Rightarrow> Vertex \<Rightarrow> real" where
  "triangleArea v1 v2 v3 =
     sqrt (((pos_y v2 - pos_y v1) * (pos_z v3 - pos_z v1) - (pos_z v2 - pos_z v1) * (pos_y v3 - pos_y v1)) *
           ((pos_y v2 - pos_y v1) * (pos_z v3 - pos_z v1) - (pos_z v2 - pos_z v1) * (pos_y v3 - pos_y v1)) +
           ((pos_z v2 - pos_z v1) * (pos_x v3 - pos_x v1) - (pos_x v2 - pos_x v1) * (pos_z v3 - pos_z v1)) *
           ((pos_z v2 - pos_z v1) * (pos_x v3 - pos_x v1) - (pos_x v2 - pos_x v1) * (pos_z v3 - pos_z v1)) +
           ((pos_x v2 - pos_x v1) * (pos_y v3 - pos_y v1) - (pos_y v2 - pos_y v1) * (pos_x v3 - pos_x v1)) *
           ((pos_x v2 - pos_x v1) * (pos_y v3 - pos_y v1) - (pos_y v2 - pos_y v1) * (pos_x v3 - pos_x v1))) / 2"

definition distanceSquared :: "Vertex \<Rightarrow> Vertex \<Rightarrow> float" where
  "distanceSquared v1 v2 =
     (pos_x v2 - pos_x v1) * (pos_x v2 - pos_x v1) +
     (pos_y v2 - pos_y v1) * (pos_y v2 - pos_y v1) +
     (pos_z v2 - pos_z v1) * (pos_z v2 - pos_z v1)"

definition computedDistSq :: "Vertex \<Rightarrow> Vertex \<Rightarrow> f32" where
  \<comment> \<open>the local \<open>distSq\<close> of \<open>checkOverlappingVertices\<close>\<close>
  "computedDistSq v1 v2 =
     fadd (fadd (fmul (fsub (Finite (pos_x v2)) (Finite (pos_x v1)))
                      (fsub (Finite (pos_x v2)) (Finite (pos_x v1))))
                (fmul (fsub (Finite (pos_y v2)) (Finite (pos_y v1)))
                      (fsub (Finite (pos_y v2)) (Finite (pos_y v1)))))
          (fmul (fsub (Finite (pos_z v2)) (Finite (pos_z v1)))
                (fsub (Finite (pos_z v2)) (Finite (pos_z v1))))"

definition overlapLimit :: f32 where
  \<comment> \<open>the product \<open>OVERLAP_THRESHOLD * OVERLAP_THRESHOLD\<close>\<close>
  "overlapLimit = fmul (Finite OVERLAP_THRESHOLD) (Finite OVERLAP_THRESHOLD)"

definition overlapIssues :: "Vertex list \<Rightarrow> nat \<Rightarrow> nat \<Rightarrow> MeshIssue list" where
  "overlapIssues vs i j =
     (if flt (computedDistSq (vs ! i) (vs ! j)) overlapLimit
      then [\<lparr>type = OVERLAPPING_VERTICES, elementIndex = i,
             severity = valof (fsub (Finite 1)
               (fdiv (fsqrt (computedDistSq (vs ! i) (vs ! j))) (Finite OVERLAP_THRESHOLD))),
             relatedElements = [j]\<rparr>]
      else [])"

definition allOverlapIssues :: "Vertex list \<Rightarrow> MeshIssue list" where
  "allOverlapIssues vs =
     concat (map (\<lambda>i. concat (map (overlapIssues vs i) [i + 1..<length vs])) [0..<length vs])"

definition nonManifoldIssue :: "(nat \<times> nat) \<times> nat list \<Rightarrow> MeshIssue" where
  "nonManifoldIssue entry =
     \<lparr>type = NON_MANIFOLD_EDGE, elementIndex = fst (fst entry),
      severity = min 1 (real (length (snd entry) - 2) / 4),
      relatedElements = [snd (fst entry)]\<rparr>"

definition nonManifoldEntries :: "EdgeFaceMap \<Rightarrow> EdgeFaceMap" where
  "nonManifoldEntries efm = filter (\<lambda>entry. length (snd entry) > 2) efm"

definition valenceIssues :: "nat list list \<Rightarrow> nat \<Rightarrow> MeshIssue list" where
  "valenceIssues c vertexIdx =
     (let valence = length (c ! vertexIdx) in
      (if valence > 0 \<and> valence < LOW_VALENCE_THRESHOLD
       then [\<lparr>type = LOW_VALENCE_VERTEX, elementIndex = vertexIdx,
              severity = 1 - real valence / real LOW_VALENCE_THRESHOLD,
              relatedElements = c ! vertexIdx\<rparr>]
       else []) @
      (if valence > HIGH_VALENCE_THRESHOLD
       then [\<lparr>type = HIGH_VALENCE_VERTEX, elementIndex = vertexIdx,
              severity = min 1 (real (valence - HIGH_VALENCE_THRESHOLD) / 8),
              relatedElements = c ! vertexIdx\<rparr>]
       else []))"

definition manifoldAngles :: "Mesh \<Rightarrow> EdgeFaceMap \<Rightarrow> float list option" where
  "manifoldAngles m efm =
     those (map (\<lambda>(edge, fs). calculateDihedralAngle m (fs ! 0) (fs ! 1) (fst edge) (snd edge))
                (filter (\<lambda>(edge, fs). length fs = 2) efm))"

text \<open>
  The spec's rule for the running minimum of the dihedral angle (section 4.3): the stored
  value is replaced when the new angle is smaller or the stored value is below 0.1.
\<close>

definition spec_minUpdate :: "float \<Rightarrow> float \<Rightarrow> float" where
  "spec_minUpdate stored angle = (if angle < stored \<or> stored < 0.1 then angle else stored)"

text \<open>
  Invariants of the topology and of the passes: the keys of the edge map are strictly
  increasing; its keys and face indices are in range; a pass leaves mesh and topology alone
  and appends issues of its own type only.
\<close>

definition keysSorted :: "EdgeFaceMap \<Rightarrow> bool" where
  "keysSorted efm = sorted_wrt pair_less (map fst efm)"

definition topologyValid :: "nat \<Rightarrow> nat \<Rightarrow> EdgeFaceMap \<Rightarrow> bool" where
  "topologyValid nV nF efm =
     (\<forall>entry \<in> set efm. fst (fst entry) < nV \<and> snd (fst entry) < nV \<and>
        (\<forall>f \<in> set (snd entry). f < nF))"

definition builtOn :: "Analyzer \<Rightarrow> Analyzer \<Rightarrow> bool" where
  "builtOn a a' =
     (mesh a' = mesh a \<and> minQualityThreshold a' = minQualityThreshold a \<and>
      issues a' = issues a \<and> metrics a' = metrics a \<and>
      length (vertexConnectivity a') = length (getVertices (mesh a)) \<and>
      keysSorted (edgeFaceMap a') \<and>
      topologyValid (length (getVertices (mesh a))) (length (getFaces (mesh a))) (edgeFaceMap a'))"

definition reportExtends :: "IssueType \<Rightarrow> Analyzer \<Rightarrow> Analyzer \<Rightarrow> bool" where
  "reportExtends T a a' =
     (mesh a' = mesh a \<and> minQualityThreshold a' = minQualityThreshold a \<and>
      edgeFaceMap a' = edgeFaceMap a \<and> vertexConnectivity a' = vertexConnectivity a \<and>
      (\<exists>new. issues a' = issues a @ new \<and> (\<forall>i \<in> set new. type i = T)))"

definition degenerateInv :: "Analyzer \<Rightarrow> float \<times> float \<times> float \<times> Analyzer \<Rightarrow> bool" where
  "degenerateInv a0 st =
     (case st of (totalArea, minArea, maxArea, a) \<Rightarrow>
        reportExtends DEGENERATE_FACE a0 a \<and>
        metrics a = (metrics a0)
          \<lparr>degenerateFaceCount :=
             degenerateFaceCount (metrics a0) + (length (issues a) - length (issues a0))\<rparr>)"

definition aspectInv :: "Analyzer \<Rightarrow> float \<times> float \<times> float \<times> Analyzer \<Rightarrow> bool" where
  "aspectInv a0 st =
     (case st of (totalRatio, minRatio, maxRatio, a) \<Rightarrow>
        reportExtends HIGH_ASPECT_RATIO a0 a \<and> metrics a = metrics a0)"

definition stretchInv :: "Analyzer \<Rightarrow> float \<times> nat \<times> Analyzer \<Rightarrow> bool" where
  "stretchInv a0 st =
     (case st of (totalStretch, stretchableCount, a) \<Rightarrow>
        reportExtends TEXTURE_STRETCH a0 a \<and> metrics a = metrics a0)"

definition sharpInv :: "Analyzer \<Rightarrow> Analyzer \<Rightarrow> bool" where
  "sharpInv a a' =
     (reportExtends SHARP_ANGLE a a' \<and>
      (\<exists>mn mx. metrics a' = (metrics a)\<lparr>minDihedralAngle := mn, maxDihedralAngle := mx\<rparr>))"

definition addsAtMostOne :: "IssueType \<Rightarrow> Analyzer \<Rightarrow> Analyzer option \<Rightarrow> bool" where
  "addsAtMostOne T a r =
     (\<exists>a'. r = Some a' \<and>
        (a' = a \<or> (\<exists>issue. type issue = T \<and> a' = a\<lparr>issues := issues a @ [issue]\<rparr>)))"

definition returns :: "'a option \<Rightarrow> bool" where
  "returns r = (r \<noteq> None)"

definition angle_like :: "float option \<Rightarrow> bool" where
  "angle_like r =
     (case r of None \<Rightarrow> True
      | Some angle \<Rightarrow> \<exists>d. - 1 \<le> d \<and> d \<le> 1 \<and> angle = arccos d * 180 / M_PI)"

text \<open>
  Binary32 values that are sums of squares (non-negative, possibly infinite, never NaN) and
  the square roots of such values.
\<close>

definition squareSum32 :: "f32 \<Rightarrow> bool" where
  "squareSum32 a = (a = PlusInfinity \<or> (\<exists>r. a = Finite r \<and> 0 \<le> r \<and> r < 2 ^ 128))"


fun fle :: "f32 \<Rightarrow> f32 \<Rightarrow> bool" where
  \<comment> \<open>the comparison \<open><=\<close>, false when an operand is NaN\<close>
  "fle (Finite x) (Finite y) = (x \<le> y)"
| "fle NaN _ = False"
| "fle _ NaN = False"
| "fle MinusInfinity _ = True"
| "fle _ PlusInfinity = True"
| "fle _ _ = False"

text \<open>Meshes on which the statements are instantiated.\<close>

definition vertexAt :: "float \<Rightarrow> float \<Rightarrow> float \<Rightarrow> Vertex" where
  "vertexAt px py pz =
     \<lparr>pos_x = px, pos_y = py, pos_z = pz, norm_x = 0, norm_y = 0, norm_z = 1,
      tex_u = px, tex_v = py\<rparr>"

definition triangleFace :: "nat \<Rightarrow> nat \<Rightarrow> nat \<Rightarrow> Face" where
  "triangleFace i j k = \<lparr>vertexIndices = [i, j, k], texCoordIndices = [i, j, k]\<rparr>"

definition unitTriangle :: Mesh where
  "unitTriangle =
     \<lparr> getName = ''triangle'',
       getVertices =
         [\<lparr>pos_x = 0, pos_y = 0, pos_z = 0, norm_x = 0, norm_y = 0, norm_z = 1, tex_u = 0, tex_v = 0\<rparr>,
          \<lparr>pos_x = 1, pos_y = 0, pos_z = 0, norm_x = 0, norm_y = 0, norm_z = 1, tex_u = 1, tex_v = 0\<rparr>,
          \<lparr>pos_x = 0, pos_y = 1, pos_z = 0, norm_x = 0, norm_y = 0, norm_z = 1, tex_u = 0, tex_v = 1\<rparr>],
       getFaces = [\<lparr>vertexIndices = [0, 1, 2], texCoordIndices = [0, 1, 2]\<rparr>] \<rparr>"

definition coincidentPair :: Mesh where
  "coincidentPair =
     \<lparr> getName = ''two vertices'', getVertices = [vertexAt 0 0 0, vertexAt 0 0 0],
       getFaces = [] \<rparr>"

definition collinearMesh :: Mesh where
  "collinearMesh =
     \<lparr> getName = ''collinear'',
       getVertices = [vertexAt 0 0 0, vertexAt 1 0 0, vertexAt 2 0 0],
       getFaces = [triangleFace 0 1 2] \<rparr>"

definition twoVertexFace :: Mesh where
  "twoVertexFace =
     \<lparr> getName = ''segment'',
       getVertices = [vertexAt 0 0 0, vertexAt 1 0 0],
       getFaces = [\<lparr>vertexIndices = [0, 1], texCoordIndices = [0, 1]\<rparr>] \<rparr>"

definition quadMesh :: Mesh where
  "quadMesh =
     \<lparr> getName = ''quad'',
       getVertices = [vertexAt 0 0 0, vertexAt 1 0 0, vertexAt 1 1 0, vertexAt 0 1 0],
       getFaces = [triangleFace 0 1 2, triangleFace 0 2 3] \<rparr>"

definition quadAnalyzer :: Analyzer where
  "quadAnalyzer =
     (MeshQualityAnalyzer quadMesh (1 / 2))
       \<lparr>edgeFaceMap := [((0, 1), [0]), ((0, 2), [0, 1]), ((0, 3), [1]), ((1, 2), [0]), ((2, 3), [1])],
        vertexConnectivity := [[1, 2, 3], [0, 2], [1, 0, 3], [2, 0]]\<rparr>"

definition pairMesh :: Mesh where
  "pairMesh =
     \<lparr> getName = ''pair'',
       getVertices = [vertexAt 0 0 0, vertexAt 1 0 0, vertexAt 0 0 0],
       getFaces = [triangleFace 0 1 2] \<rparr>"

definition fanMesh :: Mesh where
  "fanMesh =
     \<lparr> getName = ''fan'',
       getVertices = [vertexAt 0 0 0, vertexAt 1 0 0, vertexAt 0 1 0, vertexAt 0 0 1,
                      vertexAt 0 (- 1) 0],
       getFaces = [triangleFace 0 1 2, triangleFace 0 1 3, triangleFace 0 1 4] \<rparr>"

definition huge :: real where
  \<comment> \<open>a coordinate whose square overflows binary32\<close>
  "huge = 2 ^ 70"



definition hugeUVFace :: Mesh where
  "hugeUVFace =
     \<lparr> getName = ''huge face'',
       getVertices =
         [\<lparr>pos_x = 0, pos_y = 0, pos_z = 0, norm_x = 0, norm_y = 0, norm_z = 1, tex_u = 0, tex_v = 0\<rparr>,
          \<lparr>pos_x = huge, pos_y = huge, pos_z = 0, norm_x = 0, norm_y = 0, norm_z = 1,
           tex_u = 1, tex_v = 0\<rparr>,
          \<lparr>pos_x = huge, pos_y = 2 * huge, pos_z = 0, norm_x = 0, norm_y = 0, norm_z = 1,
           tex_u = 0, tex_v = 1\<rparr>],
       getFaces = [triangleFace 0 1 2] \<rparr>"

definition nearMesh :: Mesh where
  "nearMesh =
     \<lparr> getName = ''near'',
       getVertices =
         [vertexAt (- (1 / 2 ^ 15)) (- (1 / 2 ^ 15)) 0,
          vertexAt (- (1 / 2 ^ 15)) (- (1 / 2 ^ 15)) 0,
          vertexAt (8532993 / 2 ^ 38) (8450037 / 2 ^ 38) (13627109 / 2 ^ 38)],
       getFaces = [] \<rparr>"

section \<open>Binary32 arithmetic: rounding\<close>

subsection \<open>Powers of two\<close>

lemma pow2_pos [simp]: "0 < pow2 k"
  by (simp add: pow2_def)

lemma pow2_nonneg [simp]: "0 \<le> pow2 k"
  by (simp add: pow2_def)

lemma abs_pow2 [simp]: "\<bar>pow2 k\<bar> = pow2 k"
  by (simp add: pow2_def)

lemma pow2_powr: "pow2 k = 2 powr (of_int k)"
  by (simp add: pow2_def powr_real_of_int divide_inverse)

lemma pow2_add: "pow2 (j + k) = pow2 j * pow2 k"
  by (simp add: pow2_powr powr_add)

lemma pow2_mono: "j \<le> k \<Longrightarrow> pow2 j \<le> pow2 k"
  by (simp add: pow2_powr)

lemma pow2_strict_mono: "j < k \<Longrightarrow> pow2 j < pow2 k"
  by (simp add: pow2_powr)

lemma floor_log2_eq:
  assumes "pow2 k \<le> x" "x < pow2 (k + 1)"
  shows "\<lfloor>log 2 x\<rfloor> = k"
proof -
  have x: "0 < x" using assms(1) pow2_pos[of k] by linarith
  have "of_int k \<le> log 2 x"
    using assms(1) x by (simp add: le_log_iff pow2_powr)
  moreover have "log 2 x < of_int k + 1"
    using assms(2) x by (simp add: log_less_iff pow2_powr)
  ultimately show ?thesis by (simp add: floor_eq_iff)
qed

lemma floor_log2_bounds:
  assumes "0 < x"
  shows "pow2 \<lfloor>log 2 x\<rfloor> \<le> x" and "x < pow2 (\<lfloor>log 2 x\<rfloor> + 1)"
proof -
  show "pow2 \<lfloor>log 2 x\<rfloor> \<le> x"
    using assms le_log_iff[of 2 x "of_int \<lfloor>log 2 x\<rfloor>"] by (simp add: pow2_powr)
  have "log 2 x < of_int (\<lfloor>log 2 x\<rfloor> + 1)" by linarith
  then show "x < pow2 (\<lfloor>log 2 x\<rfloor> + 1)"
    using assms log_less_iff[of 2 x "of_int (\<lfloor>log 2 x\<rfloor> + 1)"]
    unfolding pow2_powr by simp
qed

subsection \<open>Rounding to an integer\<close>

lemma round_to_even_cases:
  "round_to_even y = \<lfloor>y\<rfloor> \<or> round_to_even y = \<lfloor>y\<rfloor> + 1"
  by (simp add: round_to_even_def Let_def)

lemma round_to_even_ge:
  assumes "of_int n \<le> y"
  shows "n \<le> round_to_even y"
proof -
  have "n \<le> \<lfloor>y\<rfloor>" using assms by (simp add: le_floor_iff)
  then show ?thesis using round_to_even_cases[of y] by linarith
qed

lemma round_to_even_le:
  assumes "y \<le> of_int n"
  shows "round_to_even y \<le> n"
proof (cases "y = of_int n")
  case True
  then show ?thesis by (simp add: round_to_even_def)
next
  case False
  then have "y < of_int n" using assms by simp
  then have "\<lfloor>y\<rfloor> < n" by (simp add: floor_less_iff)
  then show ?thesis using round_to_even_cases[of y] by linarith
qed

lemma round_to_even_of_int [simp]: "round_to_even (of_int n) = n"
  by (simp add: round_to_even_def)

lemma round_to_even_nearest:
  assumes "\<bar>y - of_int n\<bar> < 1 / 2"
  shows "round_to_even y = n"
proof (cases "of_int n \<le> y")
  case True
  then have "\<lfloor>y\<rfloor> = n" using assms by (simp add: floor_eq_iff, linarith?)
  then show ?thesis using assms True by (simp add: round_to_even_def)
next
  case False
  then have f: "\<lfloor>y\<rfloor> = n - 1" using assms by (simp add: floor_eq_iff, linarith?)
  have "1 / 2 < y - of_int (n - 1)" using assms False by (simp, linarith?)
  then show ?thesis unfolding round_to_even_def Let_def f by simp
qed


subsection \<open>Rounding to binary32\<close>

lemma exponent32_ge: "- 126 \<le> exponent32 x"
  by (simp add: exponent32_def)

lemma exponent32_normal:
  assumes "pow2 e \<le> \<bar>x\<bar>" "\<bar>x\<bar> < pow2 (e + 1)" "- 126 \<le> e"
  shows "exponent32 x = e"
  using floor_log2_eq[OF assms(1,2)] assms(3) by (simp add: exponent32_def)

lemma exponent32_le:
  assumes "x \<noteq> 0" "\<bar>x\<bar> < pow2 (k + 1)" "- 126 \<le> k"
  shows "exponent32 x \<le> k"
proof -
  have p: "0 < \<bar>x\<bar>" using assms(1) by simp
  have "pow2 \<lfloor>log 2 \<bar>x\<bar>\<rfloor> < pow2 (k + 1)"
    using floor_log2_bounds(1)[OF p] assms(2) by linarith
  then have "\<lfloor>log 2 \<bar>x\<bar>\<rfloor> < k + 1"
    using pow2_mono[of "k + 1" "\<lfloor>log 2 \<bar>x\<bar>\<rfloor>"] by (cases "\<lfloor>log 2 \<bar>x\<bar>\<rfloor> < k + 1") auto
  then show ?thesis using assms(3) by (simp add: exponent32_def)
qed

lemma round32_not_NaN [simp]: "round32 x \<noteq> NaN"
  by (simp add: round32_def Let_def)

lemma round32_zero [simp]: "round32 0 = Finite 0"
  by (simp add: round32_def)

lemma round32_Finite_bound:
  assumes "round32 x = Finite r"
  shows "\<bar>r\<bar> < 2 ^ 128"
proof (cases "x = 0")
  case True
  then show ?thesis using assms by auto
next
  case False
  define u where "u = pow2 (exponent32 x - 23)"
  define n where "n = round_to_even (\<bar>x\<bar> / u)"
  have u: "0 < u" by (simp add: u_def)
  have "0 \<le> \<bar>x\<bar> / u" using u by simp
  then have n: "0 \<le> n" unfolding n_def by (intro round_to_even_ge) simp
  have r: "r = sgn x * (of_int n * u)" and b: "\<not> 2 ^ 128 \<le> of_int n * u"
    using assms False by (auto simp: round32_def Let_def u_def n_def split: if_splits)
  have "\<bar>r\<bar> = of_int n * u" using n u False by (simp add: r abs_mult abs_sgn_eq)
  then show ?thesis using b by simp
qed

lemma round32_nonneg:
  assumes "0 \<le> x"
  shows "round32 x = PlusInfinity \<or> (\<exists>r. round32 x = Finite r \<and> 0 \<le> r \<and> r < 2 ^ 128)"
proof (cases "x = 0")
  case True
  then show ?thesis by simp
next
  case False
  then have x: "0 < x" using assms by simp
  define u where "u = pow2 (exponent32 x - 23)"
  define n where "n = round_to_even (\<bar>x\<bar> / u)"
  have u: "0 < u" by (simp add: u_def)
  have "0 \<le> \<bar>x\<bar> / u" using u by simp
  then have n: "0 \<le> n" unfolding n_def by (intro round_to_even_ge) simp
  have e: "round32 x = (if 2 ^ 128 \<le> of_int n * u then PlusInfinity else Finite (of_int n * u))"
    using x by (simp add: round32_def Let_def u_def n_def)
  show ?thesis
  proof (cases "(2::real) ^ 128 \<le> of_int n * u")
    case True
    then show ?thesis by (simp add: e)
  next
    case False
    moreover have "0 \<le> of_int n * u" using n u by simp
    ultimately show ?thesis by (simp add: e)
  qed
qed

lemma round32_le_pow2:
  assumes "0 \<le> x" "x \<le> pow2 k" "- 149 \<le> k" "k \<le> 127"
  shows "\<exists>r. round32 x = Finite r \<and> 0 \<le> r \<and> r \<le> pow2 k"
proof (cases "x = 0")
  case True
  then show ?thesis by (simp add: less_imp_le)
next
  case False
  then have x: "0 < x" using assms(1) by simp
  define e where "e = exponent32 x"
  define u where "u = pow2 (e - 23)"
  define n where "n = round_to_even (\<bar>x\<bar> / u)"
  have u: "0 < u" by (simp add: u_def)
  have "0 \<le> \<bar>x\<bar> / u" using u by simp
  then have n: "0 \<le> n" unfolding n_def by (intro round_to_even_ge) simp
  have ek: "e - 23 \<le> k"
  proof (cases "- 126 \<le> k")
    case True
    have "\<bar>x\<bar> < pow2 (k + 1)" using assms(2) x pow2_strict_mono[of k "k + 1"] by simp
    then have "e \<le> k" unfolding e_def using False True by (intro exponent32_le) auto
    then show ?thesis by simp
  next
    case False
    have "\<bar>x\<bar> < pow2 (- 126 + 1)"
      using assms(2) x pow2_strict_mono[of k "- 126 + 1"] False by simp
    then have "e \<le> - 126" unfolding e_def using \<open>x \<noteq> 0\<close> by (intro exponent32_le) auto
    then show ?thesis using assms(3) by simp
  qed
  define N :: int where "N = 2 ^ nat (k - (e - 23))"
  have N: "of_int N * u = pow2 k"
  proof -
    have "pow2 k = pow2 ((k - (e - 23)) + (e - 23))" by simp
    also have "\<dots> = pow2 (k - (e - 23)) * u" unfolding u_def by (rule pow2_add)
    also have "pow2 (k - (e - 23)) = of_int N" using ek by (simp add: pow2_def N_def)
    finally show ?thesis by simp
  qed
  have "\<bar>x\<bar> / u \<le> of_int N"
    using assms(2) x u N by (simp add: divide_le_eq)
  then have nN: "n \<le> N" unfolding n_def by (rule round_to_even_le)
  have le: "of_int n * u \<le> pow2 k"
  proof -
    have "of_int n * u \<le> of_int N * u" using nN u by (simp add: mult_right_mono)
    then show ?thesis by (simp add: N)
  qed
  have "pow2 k \<le> pow2 127" using assms(4) by (rule pow2_mono)
  also have "\<dots> < 2 ^ 128" by (simp add: pow2_def)
  finally have lt: "of_int n * u < 2 ^ 128" using le by linarith
  have "round32 x = Finite (of_int n * u)"
    using x lt by (simp add: round32_def Let_def u_def n_def e_def)
  moreover have "0 \<le> of_int n * u" using n u by simp
  ultimately show ?thesis using le by simp
qed

lemma round32_ge_one:
  assumes "1 \<le> x"
  shows "round32 x = PlusInfinity \<or> (\<exists>r. round32 x = Finite r \<and> 1 \<le> r)"
proof -
  have x: "0 < x" using assms by simp
  define e where "e = \<lfloor>log 2 \<bar>x\<bar>\<rfloor>"
  have "pow2 0 \<le> \<bar>x\<bar>" using assms by (simp add: pow2_def)
  also have "\<bar>x\<bar> < pow2 (e + 1)" unfolding e_def using x by (intro floor_log2_bounds) simp
  finally have "0 < e + 1" using pow2_mono[of "e + 1" 0] by (cases "0 < e + 1") auto
  then have e0: "0 \<le> e" by simp
  then have ex: "exponent32 x = e" by (simp add: exponent32_def e_def)
  define u where "u = pow2 (e - 23)"
  define n where "n = round_to_even (\<bar>x\<bar> / u)"
  have u: "0 < u" by (simp add: u_def)
  have pe: "pow2 e \<le> \<bar>x\<bar>" unfolding e_def using x by (intro floor_log2_bounds) simp
  have "pow2 e = pow2 (23 + (e - 23))" by simp
  also have "\<dots> = pow2 23 * u" unfolding u_def by (rule pow2_add)
  finally have pu: "pow2 e = of_int (2 ^ 23) * u" by (simp add: pow2_def)
  have "of_int (2 ^ 23) \<le> \<bar>x\<bar> / u" using pe u unfolding pu by (simp add: le_divide_eq)
  then have "2 ^ 23 \<le> n" unfolding n_def by (rule round_to_even_ge)
  then have "of_int (2 ^ 23) * u \<le> of_int n * u" using u by (intro mult_right_mono) simp_all
  then have "pow2 e \<le> of_int n * u" by (simp only: pu)
  moreover have "pow2 0 \<le> pow2 e" using e0 by (rule pow2_mono)
  ultimately have ge: "1 \<le> of_int n * u" by (simp add: pow2_def)
  have "round32 x = (if 2 ^ 128 \<le> of_int n * u then PlusInfinity else Finite (of_int n * u))"
    using x by (simp add: round32_def Let_def u_def n_def ex)
  then show ?thesis using ge by (cases "(2::real) ^ 128 \<le> of_int n * u") simp_all
qed

lemma round32_overflow:
  assumes "2 ^ 128 \<le> x"
  shows "round32 x = PlusInfinity"
proof -
  have x: "0 < x" using assms by (simp add: less_le_trans[of 0 "2 ^ 128"])
  define e where "e = \<lfloor>log 2 \<bar>x\<bar>\<rfloor>"
  have "pow2 128 \<le> \<bar>x\<bar>" using assms by (simp add: pow2_def)
  also have "\<bar>x\<bar> < pow2 (e + 1)" unfolding e_def using x by (intro floor_log2_bounds) simp
  finally have "128 < e + 1" using pow2_mono[of "e + 1" 128] by (cases "128 < e + 1") auto
  then have e0: "128 \<le> e" by simp
  then have ex: "exponent32 x = e" by (simp add: exponent32_def e_def)
  define u where "u = pow2 (e - 23)"
  define n where "n = round_to_even (\<bar>x\<bar> / u)"
  have u: "0 < u" by (simp add: u_def)
  have pe: "pow2 e \<le> \<bar>x\<bar>" unfolding e_def using x by (intro floor_log2_bounds) simp
  have "pow2 e = pow2 (23 + (e - 23))" by simp
  also have "\<dots> = pow2 23 * u" unfolding u_def by (rule pow2_add)
  finally have pu: "pow2 e = of_int (2 ^ 23) * u" by (simp add: pow2_def)
  have "of_int (2 ^ 23) \<le> \<bar>x\<bar> / u" using pe u unfolding pu by (simp add: le_divide_eq)
  then have "2 ^ 23 \<le> n" unfolding n_def by (rule round_to_even_ge)
  then have "of_int (2 ^ 23) * u \<le> of_int n * u" using u by (intro mult_right_mono) simp_all
  then have "pow2 e \<le> of_int n * u" by (simp only: pu)
  moreover have "pow2 128 \<le> pow2 e" using e0 by (rule pow2_mono)
  ultimately have ge: "2 ^ 128 \<le> of_int n * u" by (simp add: pow2_def)
  show ?thesis using x ge by (simp add: round32_def Let_def u_def n_def ex)
qed

lemma round32_representable:
  assumes "\<bar>n\<bar> < 2 ^ 24" "- 149 \<le> k" "k \<le> 104"
  shows "round32 (of_int n * pow2 k) = Finite (of_int n * pow2 k)"
proof (cases "n = 0")
  case True
  then show ?thesis by simp
next
  case False
  define x where "x = of_int n * pow2 k"
  have x0: "x \<noteq> 0" using False by (simp add: x_def less_imp_neq[OF pow2_pos, symmetric])
  have ax: "\<bar>x\<bar> = of_int \<bar>n\<bar> * pow2 k" by (simp add: x_def abs_mult)
  define e where "e = exponent32 x"
  define u where "u = pow2 (e - 23)"
  have u: "0 < u" by (simp add: u_def)
  have lt: "\<bar>x\<bar> < pow2 (k + 24)"
  proof -
    have "real_of_int \<bar>n\<bar> < of_int (2 ^ 24)" using assms(1) by (simp only: of_int_less_iff)
    then have "of_int \<bar>n\<bar> * pow2 k < of_int (2 ^ 24) * pow2 k"
      by (intro mult_strict_right_mono) simp_all
    also have "\<dots> = pow2 (24 + k)" by (simp add: pow2_add[of 24 k]) (simp add: pow2_def)
    finally show ?thesis by (simp add: ax add.commute)
  qed
  have ek: "e - 23 \<le> k"
  proof (cases "- 126 \<le> k + 23")
    case True
    have "e \<le> k + 23" unfolding e_def using x0 lt True by (intro exponent32_le) (auto simp: add.commute)
    then show ?thesis by simp
  next
    case False
    have "pow2 (k + 24) \<le> pow2 (- 126 + 1)" using False by (intro pow2_mono) simp
    then have "\<bar>x\<bar> < pow2 (- 126 + 1)" using lt by linarith
    then have "e \<le> - 126" unfolding e_def using x0 by (intro exponent32_le) auto
    then show ?thesis using assms(2) by simp
  qed
  define N :: int where "N = 2 ^ nat (k - (e - 23))"
  have N: "of_int N * u = pow2 k"
  proof -
    have "pow2 k = pow2 ((k - (e - 23)) + (e - 23))" by simp
    also have "\<dots> = pow2 (k - (e - 23)) * u" unfolding u_def by (rule pow2_add)
    also have "pow2 (k - (e - 23)) = of_int N" using ek by (simp add: pow2_def N_def)
    finally show ?thesis by simp
  qed
  have "\<bar>x\<bar> / u = of_int \<bar>n\<bar> * of_int N" using u by (simp add: ax N[symmetric])
  then have q: "\<bar>x\<bar> / u = of_int (\<bar>n\<bar> * N)" by simp
  have r: "of_int (round_to_even (\<bar>x\<bar> / u)) * u = \<bar>x\<bar>"
    unfolding q round_to_even_of_int by (simp add: ax N[symmetric])
  have "pow2 (k + 24) \<le> pow2 128" using assms(3) by (intro pow2_mono) simp
  then have b: "\<bar>x\<bar> < 2 ^ 128" using lt by (simp add: pow2_def)
  have "round32 x = Finite (sgn x * \<bar>x\<bar>)"
    using x0 b unfolding round32_def Let_def e_def[symmetric] u_def[symmetric] r by simp
  then show ?thesis by (simp add: x_def[symmetric] sgn_mult_abs)
qed

subsection \<open>The operations\<close>

lemma fsub_Finite [simp]: "fsub (Finite x) (Finite y) = round32 (x - y)"
  by (simp add: fsub_def)

lemma squareSum32_round32: "0 \<le> x \<Longrightarrow> squareSum32 (round32 x)"
  using round32_nonneg[of x] by (auto simp: squareSum32_def)

lemma squareSum32_fmul_self:
  assumes "a \<noteq> NaN"
  shows "squareSum32 (fmul a a)"
proof (cases a)
  case (Finite x)
  then show ?thesis by (simp add: squareSum32_round32)
qed (use assms in \<open>simp_all add: squareSum32_def\<close>)

lemma squareSum32_fadd:
  assumes "squareSum32 a" "squareSum32 b"
  shows "squareSum32 (fadd a b)"
proof -
  consider x y where "a = Finite x" "b = Finite y" "0 \<le> x" "0 \<le> y"
    | "a = PlusInfinity" | "b = PlusInfinity"
    using assms by (auto simp: squareSum32_def)
  then show ?thesis
  proof cases
    case 1
    then show ?thesis by (simp add: squareSum32_round32)
  next
    case 2
    then show ?thesis using assms(2) by (auto simp: squareSum32_def)
  next
    case 3
    then show ?thesis using assms(1) by (auto simp: squareSum32_def)
  qed
qed


lemma squareSum32_distSq:
  "squareSum32 (fadd (fadd (fmul (fsub (Finite x2) (Finite x1)) (fsub (Finite x2) (Finite x1)))
                        (fmul (fsub (Finite y2) (Finite y1)) (fsub (Finite y2) (Finite y1))))
                  (fmul (fsub (Finite z2) (Finite z1)) (fsub (Finite z2) (Finite z1))))"
  by (intro squareSum32_fadd squareSum32_fmul_self) simp_all

lemma round32_of_int:
  assumes "\<bar>n\<bar> < 2 ^ 24"
  shows "round32 (of_int n) = Finite (of_int n)"
  using round32_representable[OF assms, of 0] by (simp add: pow2_def)

lemma round32_numeral [simp]:
  "numeral k < (2 ^ 24 :: int) \<Longrightarrow> round32 (numeral k) = Finite (numeral k)"
  "numeral k < (2 ^ 24 :: int) \<Longrightarrow> round32 (- numeral k) = Finite (- numeral k)"
  "round32 1 = Finite 1"
  "round32 (- 1) = Finite (- 1)"
  using round32_of_int[of "numeral k"] round32_of_int[of "- numeral k"]
    round32_of_int[of 1] round32_of_int[of "- 1"]
  by simp_all

lemma round32_huge:
  "round32 huge = Finite huge" "round32 (- huge) = Finite (- huge)"
  "round32 (huge * huge) = PlusInfinity"
proof -
  show "round32 huge = Finite huge"
    using round32_representable[of 1 70] by (simp add: pow2_def huge_def)
  show "round32 (- huge) = Finite (- huge)"
    using round32_representable[of "- 1" 70] by (simp add: pow2_def huge_def)
  have "(2::real) ^ 128 \<le> huge * huge" by (simp add: huge_def)
  then show "round32 (huge * huge) = PlusInfinity" by (rule round32_overflow)
qed

lemma round32_half: "round32 (1 / 2) = Finite (1 / 2)"
  using round32_representable[of 1 "- 1"] by (simp add: pow2_def)

lemma round32_huge2:
  "round32 (2 * huge) = Finite (2 * huge)"
  "round32 (huge * (2 * huge)) = PlusInfinity"
  "round32 (2 * (huge * huge)) = PlusInfinity"
proof -
  show "round32 (2 * huge) = Finite (2 * huge)"
    using round32_representable[of 1 71] by (simp add: pow2_def huge_def)
  have "(2::real) ^ 128 \<le> huge * (2 * huge)" by (simp add: huge_def)
  then show "round32 (huge * (2 * huge)) = PlusInfinity" by (rule round32_overflow)
  have "(2::real) ^ 128 \<le> 2 * (huge * huge)" by (simp add: huge_def)
  then show "round32 (2 * (huge * huge)) = PlusInfinity" by (rule round32_overflow)
qed

lemma round32_eval:
  assumes "0 < x" "pow2 e \<le> x" "x < pow2 (e + 1)" "- 126 \<le> e"
    and "round_to_even (x / pow2 (e - 23)) = n"
    and "of_int n * pow2 (e - 23) = y" "y < 2 ^ 128"
  shows "round32 x = Finite y"
proof -
  have a: "\<bar>x\<bar> = x" "sgn x = 1" using assms(1) by simp_all
  have ex: "exponent32 x = e" using assms(2,3,4) by (intro exponent32_normal) (simp_all add: a)
  show ?thesis using assms(1,5,6,7) by (simp add: round32_def Let_def ex a)
qed

lemma round32_minus: "round32 (- x) = fneg (round32 x)"
  by (cases "x = 0"; cases "0 < x") (simp_all add: round32_def Let_def exponent32_def)

lemma round32_abs_le_pow2:
  assumes "\<bar>x\<bar> \<le> pow2 k" "- 149 \<le> k" "k \<le> 127"
  shows "\<exists>r. round32 x = Finite r \<and> \<bar>r\<bar> \<le> pow2 k"
proof (cases "0 \<le> x")
  case True
  then have "x \<le> pow2 k" using assms(1) by simp
  from round32_le_pow2[OF True this assms(2,3)] show ?thesis by auto
next
  case False
  then have "0 \<le> - x" "- x \<le> pow2 k" using assms(1) by simp_all
  from round32_le_pow2[OF this assms(2,3)]
  obtain r where r: "round32 (- x) = Finite r" "0 \<le> r" "r \<le> pow2 k" by blast
  have "round32 x = fneg (round32 (- x))" using round32_minus[of "- x"] by simp
  then show ?thesis using r by simp
qed

section \<open>Basic facts\<close>

lemma at_index_simps [simp]:
  "i < length xs \<Longrightarrow> at_index xs i = Some (xs ! i)"
  "\<not> i < length xs \<Longrightarrow> at_index xs i = None"
  by (simp_all add: at_index_def)

lemma fold_push_back_filter:
  "fold (\<lambda>x acc. if P x then acc @ [x] else acc) xs ys = ys @ filter P xs"
  by (induction xs arbitrary: ys) auto

lemma upt_1: "[0..<1] = [0]"
  by (simp add: upt_rec)

lemma upt_2: "[0..<2] = [0, 1]"
  by (simp add: upt_rec)

lemma upt_3: "[0..<3] = [0, 1, 2]"
  by (simp add: upt_rec)

subsection \<open>Loops\<close>

lemma for_each_append:
  "for_each (xs @ ys) body s = Option.bind (for_each xs body s) (for_each ys body)"
  by (induction xs arbitrary: s) (auto split: option.splits)

lemma for_each_total:
  assumes "I s"
    and "\<And>x s. x \<in> set xs \<Longrightarrow> I s \<Longrightarrow> \<exists>s'. body x s = Some s' \<and> I s'"
  shows "\<exists>s'. for_each xs body s = Some s' \<and> I s'"
  using assms
proof (induction xs arbitrary: s)
  case Nil
  then show ?case by simp
next
  case (Cons x xs)
  from Cons.prems obtain s1 where s1: "body x s = Some s1" "I s1" by fastforce
  have "\<exists>s'. for_each xs body s1 = Some s' \<and> I s'"
    by (rule Cons.IH[OF s1(2)]) (use Cons.prems(2) in auto)
  then show ?case using s1 by simp
qed

lemma for_each_rel:
  assumes "for_each xs body s = Some s'"
    and "R s s"
    and "\<And>x s1 s2. x \<in> set xs \<Longrightarrow> R s s1 \<Longrightarrow> body x s1 = Some s2 \<Longrightarrow> R s s2"
  shows "R s s'"
proof -
  have "for_each ys body s1 = Some s' \<Longrightarrow> R s s1 \<Longrightarrow> set ys \<subseteq> set xs \<Longrightarrow> R s s'" for ys s1
  proof (induction ys arbitrary: s1)
    case Nil
    then show ?case by simp
  next
    case (Cons y ys)
    from Cons.prems(1) obtain s2 where s2: "body y s1 = Some s2" "for_each ys body s2 = Some s'"
      by (auto split: option.splits)
    have "R s s2" using assms(3)[of y s1 s2] Cons.prems(2,3) s2(1) by simp
    then show ?case using Cons.IH[OF s2(2)] Cons.prems(3) by simp
  qed
  then show ?thesis using assms(1,2) by blast
qed

lemma fold_rel:
  assumes "R s s"
    and "\<And>x s1. x \<in> set xs \<Longrightarrow> R s s1 \<Longrightarrow> R s (f x s1)"
  shows "R s (fold f xs s)"
proof -
  have "R s s1 \<Longrightarrow> set ys \<subseteq> set xs \<Longrightarrow> R s (fold f ys s1)" for ys s1
  proof (induction ys arbitrary: s1)
    case Nil
    then show ?case by simp
  next
    case (Cons y ys)
    have "R s (f y s1)" using assms(2)[of y s1] Cons.prems by simp
    then show ?case using Cons.IH Cons.prems(2) by simp
  qed
  then show ?thesis using assms(1) by blast
qed

subsection \<open>The edge map\<close>

lemma pair_less_irrefl [simp]: "\<not> pair_less k k"
  by (simp add: pair_less_def)

lemma pair_less_trans: "pair_less a b \<Longrightarrow> pair_less b c \<Longrightarrow> pair_less a c"
  by (auto simp: pair_less_def)

lemma pair_less_linear: "\<not> pair_less a b \<Longrightarrow> a \<noteq> b \<Longrightarrow> pair_less b a"
  by (cases a; cases b) (auto simp: pair_less_def)

lemma keys_map_push_back:
  "set (map fst (map_push_back k f efm)) = insert k (set (map fst efm))"
  by (induction k f efm rule: map_push_back.induct) auto

lemma keysSorted_map_push_back:
  "keysSorted efm \<Longrightarrow> keysSorted (map_push_back k f efm)"
  unfolding keysSorted_def
proof (induction k f efm rule: map_push_back.induct)
  case (1 k f)
  then show ?case by simp
next
  case (2 k f k' fs rest)
  show ?case
  proof (cases "k = k'")
    case True
    then show ?thesis using "2.prems" by simp
  next
    case False
    show ?thesis
    proof (cases "pair_less k k'")
      case True
      then show ?thesis using "2.prems" False by (auto intro: pair_less_trans)
    next
      case nl: False
      have "pair_less k' k" using nl False by (rule pair_less_linear)
      moreover have "sorted_wrt pair_less (map fst (map_push_back k f rest))"
        using "2.IH"[OF False nl] "2.prems" by simp
      ultimately show ?thesis
        using "2.prems" False nl
        by (auto simp: keys_map_push_back[simplified])
    qed
  qed
qed

lemma keysSorted_distinct: "keysSorted efm \<Longrightarrow> distinct (map fst efm)"
  unfolding keysSorted_def
  by (induction efm) auto

lemma keysSorted_Cons_lookup:
  assumes "keysSorted ((k', fs) # rest)" "pair_less k k'"
  shows "map_of rest k = None"
proof -
  have "\<forall>x \<in> set (map fst rest). pair_less k' x"
    using assms(1) by (simp add: keysSorted_def)
  then have "k \<notin> set (map fst rest)"
    using assms(2) pair_less_trans pair_less_irrefl by blast
  then show ?thesis by (simp add: map_of_eq_None_iff)
qed

lemma map_of_map_push_back:
  assumes "keysSorted efm"
  shows "map_of (map_push_back k f efm) =
           (map_of efm)(k \<mapsto> (case map_of efm k of None \<Rightarrow> [] | Some fs \<Rightarrow> fs) @ [f])"
  using assms
proof (induction k f efm rule: map_push_back.induct)
  case (1 k f)
  then show ?case by simp
next
  case (2 k f k' fs rest)
  show ?case
  proof (cases "k = k'")
    case True
    then show ?thesis by auto
  next
    case False
    show ?thesis
    proof (cases "pair_less k k'")
      case True
      have "map_of rest k = None" by (rule keysSorted_Cons_lookup[OF "2.prems" True])
      then show ?thesis using False True by (auto simp: fun_eq_iff)
    next
      case nl: False
      have "keysSorted rest" using "2.prems" by (simp add: keysSorted_def)
      from "2.IH"[OF False nl this] show ?thesis using False nl by (auto simp: fun_eq_iff)
    qed
  qed
qed

lemma topologyValid_map_push_back:
  assumes "topologyValid nV nF efm" "fst k < nV" "snd k < nV" "f < nF"
  shows "topologyValid nV nF (map_push_back k f efm)"
  using assms
  by (induction k f efm rule: map_push_back.induct) (auto simp: topologyValid_def)

subsection \<open>The topology builder\<close>

lemma connect_Some:
  assumes "v1 < length c"
  shows "\<exists>c'. connect v1 v2 c = Some c' \<and> length c' = length c"
  using assms by (simp add: connect_def)

lemma topologyEdge_Some:
  assumes "vis ! i < length (vertexConnectivity a)"
    and "vis ! ((i + 1) mod length vis) < length (vertexConnectivity a)"
  shows "\<exists>c. topologyEdge faceIdx vis i a =
               Some (a\<lparr>edgeFaceMap :=
                         map_push_back (min (vis ! i) (vis ! ((i + 1) mod length vis)),
                                        max (vis ! i) (vis ! ((i + 1) mod length vis)))
                           faceIdx (edgeFaceMap a),
                       vertexConnectivity := c\<rparr>) \<and>
             length c = length (vertexConnectivity a)"
proof -
  define v1 where "v1 = vis ! i"
  define v2 where "v2 = vis ! ((i + 1) mod length vis)"
  define lo where "lo = min v1 v2"
  define hi where "hi = max v1 v2"
  have k: "(if v1 > v2 then (v2, v1) else (v1, v2)) = (lo, hi)"
    by (auto simp: lo_def hi_def)
  have r: "lo < length (vertexConnectivity a)" "hi < length (vertexConnectivity a)"
    using assms by (auto simp: lo_def hi_def v1_def v2_def min_def max_def)
  obtain c1 where c1: "connect lo hi (vertexConnectivity a) = Some c1"
    "length c1 = length (vertexConnectivity a)"
    using connect_Some[OF r(1)] by blast
  obtain c2 where c2: "connect hi lo c1 = Some c2" "length c2 = length c1"
    using connect_Some[of hi c1 lo] r(2) c1(2) by auto
  have "topologyEdge faceIdx vis i a =
          Some (a\<lparr>edgeFaceMap := map_push_back (lo, hi) faceIdx (edgeFaceMap a),
                  vertexConnectivity := c2\<rparr>)"
    unfolding topologyEdge_def Let_def v1_def[symmetric] v2_def[symmetric] k prod.case
    by (simp add: c1 c2)
  then show ?thesis
    using c1(2) c2(2) unfolding lo_def hi_def v1_def v2_def by auto
qed

lemma topologyEdge_builtOn:
  assumes "builtOn a0 a" "i < length vis" "\<forall>v \<in> set vis. v < length (getVertices (mesh a0))"
    "faceIdx < length (getFaces (mesh a0))"
  shows "\<exists>a'. topologyEdge faceIdx vis i a = Some a' \<and> builtOn a0 a'"
proof -
  define j where "j = (i + 1) mod length vis"
  have "0 < length vis" using assms(2) by (cases vis) simp_all
  then have j: "j < length vis" unfolding j_def by (rule mod_less_divisor)
  have v: "vis ! i < length (getVertices (mesh a0))" "vis ! j < length (getVertices (mesh a0))"
    using assms(2,3) j by simp_all
  have l: "length (vertexConnectivity a) = length (getVertices (mesh a0))"
    using assms(1) by (simp add: builtOn_def)
  obtain c where c: "topologyEdge faceIdx vis i a =
      Some (a\<lparr>edgeFaceMap := map_push_back (min (vis ! i) (vis ! j), max (vis ! i) (vis ! j))
                                faceIdx (edgeFaceMap a),
              vertexConnectivity := c\<rparr>)" "length c = length (vertexConnectivity a)"
    using topologyEdge_Some[of vis i a faceIdx] v l unfolding j_def by auto
  have "builtOn a0 (a\<lparr>edgeFaceMap := map_push_back (min (vis ! i) (vis ! j), max (vis ! i) (vis ! j))
                                faceIdx (edgeFaceMap a),
              vertexConnectivity := c\<rparr>)"
    using assms(1,4) v c(2)
    by (auto simp: builtOn_def min_def max_def
        intro!: keysSorted_map_push_back topologyValid_map_push_back)
  then show ?thesis using c(1) by simp
qed

lemma topologyFace_builtOn:
  assumes "builtOn a0 a" "validMesh (mesh a0)" "faceIdx < length (getFaces (mesh a0))"
  shows "\<exists>a'. topologyFace (getFaces (mesh a0)) faceIdx a = Some a' \<and> builtOn a0 a'"
proof -
  define vis where "vis = vertexIndices (getFaces (mesh a0) ! faceIdx)"
  have v: "\<forall>v \<in> set vis. v < length (getVertices (mesh a0))"
    using assms(2,3) unfolding validMesh_def vis_def by (meson nth_mem)
  have "\<exists>a'. for_each [0..<length vis] (topologyEdge faceIdx vis) a = Some a' \<and> builtOn a0 a'"
    by (rule for_each_total[where I = "builtOn a0", OF assms(1)])
      (use v assms(3) in \<open>auto intro: topologyEdge_builtOn\<close>)
  then show ?thesis by (simp add: topologyFace_def vis_def Let_def)
qed

lemma buildTopology_builtOn:
  assumes "validMesh (mesh a)"
  shows "\<exists>a'. buildTopology a = Some a' \<and> builtOn a a'"
proof -
  define a1 where "a1 = a\<lparr>edgeFaceMap := [],
      vertexConnectivity := replicate (length (getVertices (mesh a))) []\<rparr>"
  have b: "builtOn a a1"
    by (simp add: builtOn_def a1_def keysSorted_def topologyValid_def)
  have "\<exists>a'. for_each [0..<length (getFaces (mesh a))] (topologyFace (getFaces (mesh a))) a1 = Some a'
          \<and> builtOn a a'"
    by (rule for_each_total[where I = "builtOn a", OF b])
      (use assms in \<open>auto intro: topologyFace_builtOn\<close>)
  then show ?thesis by (simp add: buildTopology_def a1_def Let_def)
qed

section \<open>Areas, distances and the aspect ratio\<close>

lemma calculateDistance_Some:
  assumes "i < length (getVertices m)" "j < length (getVertices m)"
  shows "calculateDistance m i j =
           Some (sqrt ((pos_x (getVertices m ! j) - pos_x (getVertices m ! i)) * (pos_x (getVertices m ! j) - pos_x (getVertices m ! i))
                     + (pos_y (getVertices m ! j) - pos_y (getVertices m ! i)) * (pos_y (getVertices m ! j) - pos_y (getVertices m ! i))
                     + (pos_z (getVertices m ! j) - pos_z (getVertices m ! i)) * (pos_z (getVertices m ! j) - pos_z (getVertices m ! i))))"
  using assms by (simp add: calculateDistance_def Let_def)

lemma calculateTriangleArea_Some:
  assumes "i < length (getVertices m)" "j < length (getVertices m)" "k < length (getVertices m)"
  shows "calculateTriangleArea m i j k =
           Some (triangleArea (getVertices m ! i) (getVertices m ! j) (getVertices m ! k))"
  using assms by (simp add: calculateTriangleArea_def Let_def triangleArea_def)

section \<open>The aspect ratio in binary32 arithmetic\<close>


lemma calculateTriangleArea32_Some:
  assumes "i < length (getVertices m)" "j < length (getVertices m)" "k < length (getVertices m)"
  shows "\<exists>area. calculateTriangleArea32 m i j k = Some area"
  using assms by (simp add: calculateTriangleArea32_def Let_def)







section \<open>Dihedral angles and the running minimum\<close>

lemma M_PI_pos: "0 < M_PI" by (simp add: M_PI_def)

lemma angle_like_bind: "(\<And>v. angle_like (f v)) \<Longrightarrow> angle_like (Option.bind x f)"
  by (cases x) (simp_all add: angle_like_def)

lemma angle_like_Let: "(\<And>v. angle_like (f v)) \<Longrightarrow> angle_like (Let t f)"
  by simp

lemma angle_like_triple:
  "(\<And>x y z. angle_like (f x y z)) \<Longrightarrow> angle_like (case p of (x, y, z) \<Rightarrow> f x y z)"
  by (cases p) simp

lemma angle_like_final:
  "angle_like (Let (max (- 1) (min 1 X)) (\<lambda>d. Some (arccos d * 180 / M_PI)))"
  unfolding angle_like_def option.case Let_def
  by (rule exI[of _ "max (- 1) (min 1 X)"]) simp

lemma dihedral_form:
  assumes "calculateDihedralAngle m f1 f2 s1 s2 = Some angle"
  shows "\<exists>d. - 1 \<le> d \<and> d \<le> 1 \<and> angle = arccos d * 180 / M_PI"
proof -
  have "angle_like (calculateDihedralAngle m f1 f2 s1 s2)"
    unfolding calculateDihedralAngle_def
    by (intro angle_like_final angle_like_bind angle_like_Let angle_like_triple)
  then show ?thesis by (simp add: angle_like_def assms)
qed

lemma dihedral_bounds:
  assumes "calculateDihedralAngle m f1 f2 s1 s2 = Some angle"
  shows "0 \<le> angle" and "angle < FLT_MAX"
proof -
  obtain d where d: "- 1 \<le> d" "d \<le> 1" and a: "angle = arccos d * 180 / M_PI"
    using dihedral_form[OF assms] by blast
  have l: "0 \<le> arccos d" and u: "arccos d \<le> pi"
    using d by (simp_all add: arccos_lbound arccos_ubound)
  show "0 \<le> angle" using l M_PI_pos by (simp add: a)
  have "arccos d * 180 \<le> 4 * 180" using u pi_less_4 by simp
  then have "angle \<le> 4 * 180 / M_PI" unfolding a using M_PI_pos by (simp add: divide_right_mono)
  also have "\<dots> < FLT_MAX" by (simp add: M_PI_def FLT_MAX_def)
  finally show "angle < FLT_MAX" .
qed

lemma sharpAngleStep_manifold:
  assumes "length fs = 2"
    and "calculateDihedralAngle m (fs ! 0) (fs ! 1) (fst edge) (snd edge) = Some angle"
  shows "sharpAngleStep m (edge, fs) a =
     Some (let a1 = (if angle < minDihedralAngle (metrics a) \<or> minDihedralAngle (metrics a) < 0.1
                    then a\<lparr>metrics := (metrics a)\<lparr>minDihedralAngle := angle\<rparr>\<rparr>
                    else a);
               a2 = (if angle > maxDihedralAngle (metrics a1)
                    then a1\<lparr>metrics := (metrics a1)\<lparr>maxDihedralAngle := angle\<rparr>\<rparr>
                    else a1)
           in if angle < SHARP_ANGLE_THRESHOLD
                then a2\<lparr>issues := issues a2 @
                         [\<lparr>type = SHARP_ANGLE, elementIndex = fst edge,
                           severity = 1 - angle / SHARP_ANGLE_THRESHOLD,
                           relatedElements = [snd edge]\<rparr>]\<rparr>
                else a2)"
  unfolding sharpAngleStep_def prod.case using assms by (simp add: Let_def)

lemma sharpAngleStep_other:
  assumes "length fs \<noteq> 2"
  shows "sharpAngleStep m (edge, fs) a = Some a"
  unfolding sharpAngleStep_def prod.case using assms by simp

lemma sharpAngleStep_None:
  assumes "length fs = 2"
    and "calculateDihedralAngle m (fs ! 0) (fs ! 1) (fst edge) (snd edge) = None"
  shows "sharpAngleStep m (edge, fs) a = None"
  unfolding sharpAngleStep_def prod.case using assms by simp

lemma sharpAngleStep_min:
  assumes "sharpAngleStep m (edge, fs) a = Some a'"
  shows "if length fs = 2
         then \<exists>angle. calculateDihedralAngle m (fs ! 0) (fs ! 1) (fst edge) (snd edge) = Some angle \<and>
                minDihedralAngle (metrics a') = spec_minUpdate (minDihedralAngle (metrics a)) angle
         else a' = a"
proof (cases "length fs = 2")
  case False
  then show ?thesis using assms by (simp add: sharpAngleStep_other)
next
  case True
  show ?thesis
  proof (cases "calculateDihedralAngle m (fs ! 0) (fs ! 1) (fst edge) (snd edge)")
    case None
    then show ?thesis using assms True by (simp add: sharpAngleStep_None)
  next
    case (Some angle)
    have "minDihedralAngle (metrics a') = spec_minUpdate (minDihedralAngle (metrics a)) angle"
      using assms unfolding sharpAngleStep_manifold[OF True Some]
      by (auto simp: Let_def spec_minUpdate_def)
    then show ?thesis using True Some by simp
  qed
qed

lemma for_each_sharp_min:
  assumes "for_each efm (sharpAngleStep m) a = Some a'"
  shows "\<exists>angles. manifoldAngles m efm = Some angles \<and>
           minDihedralAngle (metrics a') = foldl spec_minUpdate (minDihedralAngle (metrics a)) angles"
  using assms
proof (induction efm arbitrary: a)
  case Nil
  then show ?case by (simp add: manifoldAngles_def)
next
  case (Cons entry efm)
  obtain edge fs where e: "entry = (edge, fs)" by (cases entry)
  from Cons.prems obtain a1 where s: "sharpAngleStep m (edge, fs) a = Some a1"
    and r: "for_each efm (sharpAngleStep m) a1 = Some a'"
    by (auto simp: e split: option.splits)
  from Cons.IH[OF r] obtain angles where an: "manifoldAngles m efm = Some angles"
    and mn: "minDihedralAngle (metrics a') = foldl spec_minUpdate (minDihedralAngle (metrics a1)) angles"
    by blast
  show ?case
  proof (cases "length fs = 2")
    case True
    with sharpAngleStep_min[OF s] obtain angle where
      c: "calculateDihedralAngle m (fs ! 0) (fs ! 1) (fst edge) (snd edge) = Some angle"
      and u: "minDihedralAngle (metrics a1) = spec_minUpdate (minDihedralAngle (metrics a)) angle"
      by auto
    have "manifoldAngles m (entry # efm) = Some (angle # angles)"
      using an c True by (simp add: manifoldAngles_def e)
    then show ?thesis using mn u by simp
  next
    case False
    with sharpAngleStep_min[OF s] have "a1 = a" by simp
    moreover have "manifoldAngles m (entry # efm) = Some angles"
      using an False by (simp add: manifoldAngles_def e)
    ultimately show ?thesis using mn by simp
  qed
qed

lemma manifoldAngles_bounds:
  assumes "manifoldAngles m efm = Some angles" "angle \<in> set angles"
  shows "0 \<le> angle \<and> angle < FLT_MAX"
  using assms
proof (induction efm arbitrary: angles)
  case Nil
  then show ?case by (simp add: manifoldAngles_def)
next
  case (Cons entry efm)
  obtain edge fs where e: "entry = (edge, fs)" by (cases entry)
  show ?case
  proof (cases "length fs = 2")
    case True
    with Cons.prems(1) obtain x rest where
      c: "calculateDihedralAngle m (fs ! 0) (fs ! 1) (fst edge) (snd edge) = Some x"
      and r: "manifoldAngles m efm = Some rest" and a: "angles = x # rest"
      by (auto simp: manifoldAngles_def e split: option.splits)
    show ?thesis
      using Cons.prems(2) dihedral_bounds[OF c] Cons.IH[OF r] by (auto simp: a)
  next
    case False
    then have "manifoldAngles m efm = Some angles"
      using Cons.prems(1) by (simp add: manifoldAngles_def e)
    then show ?thesis using Cons.IH Cons.prems(2) by blast
  qed
qed

section \<open>The passes on a mesh with valid indices\<close>

subsection \<open>Passes that cannot fail\<close>

lemma fold_issues:
  assumes "\<And>x a. f x a = a\<lparr>issues := issues a @ g x\<rparr>"
  shows "fold f xs a = a\<lparr>issues := issues a @ concat (map g xs)\<rparr>"
  by (induction xs arbitrary: a) (simp_all add: assms)

lemma nonManifoldStep_eq:
  "nonManifoldStep entry a =
     (if length (snd entry) > 2
      then a\<lparr>issues := issues a @ [nonManifoldIssue entry],
             metrics := (metrics a)
               \<lparr>nonManifoldEdgeCount := nonManifoldEdgeCount (metrics a) + 1\<rparr>\<rparr>
      else a)"
  by (cases entry) (simp add: nonManifoldStep_def nonManifoldIssue_def)

lemma fold_nonManifoldStep:
  "fold nonManifoldStep es a =
     a\<lparr>issues := issues a @ map nonManifoldIssue (nonManifoldEntries es),
       metrics := (metrics a)
         \<lparr>nonManifoldEdgeCount :=
            nonManifoldEdgeCount (metrics a) + length (nonManifoldEntries es)\<rparr>\<rparr>"
  by (induction es arbitrary: a) (simp_all add: nonManifoldStep_eq nonManifoldEntries_def)

lemma checkNonManifoldEdges_eq:
  "checkNonManifoldEdges a =
     a\<lparr>issues := issues a @ map nonManifoldIssue (nonManifoldEntries (edgeFaceMap a)),
       metrics := (metrics a)
         \<lparr>nonManifoldEdgeCount :=
            nonManifoldEdgeCount (metrics a) + length (nonManifoldEntries (edgeFaceMap a))\<rparr>\<rparr>"
  by (simp add: checkNonManifoldEdges_def fold_nonManifoldStep)

lemma vertexValenceStep_eq:
  "vertexValenceStep vertexIdx a =
     a\<lparr>issues := issues a @ valenceIssues (vertexConnectivity a) vertexIdx\<rparr>"
  by (simp add: vertexValenceStep_def valenceIssues_def Let_def)

lemma fold_vertexValenceStep:
  "fold vertexValenceStep xs a =
     a\<lparr>issues := issues a @ concat (map (valenceIssues (vertexConnectivity a)) xs)\<rparr>"
  by (induction xs arbitrary: a) (simp_all add: vertexValenceStep_eq)

lemma checkVertexValence_eq:
  "checkVertexValence a =
     a\<lparr>issues := issues a @
         concat (map (valenceIssues (vertexConnectivity a)) [0..<length (vertexConnectivity a)])\<rparr>"
  by (simp add: checkVertexValence_def fold_vertexValenceStep)

lemma overlapStep_eq:
  "overlapStep vs i j a = a\<lparr>issues := issues a @ overlapIssues vs i j\<rparr>"
  by (simp add: overlapStep_def overlapIssues_def computedDistSq_def overlapLimit_def Let_def)

lemma checkOverlappingVertices_eq:
  "checkOverlappingVertices a =
     a\<lparr>issues := issues a @ allOverlapIssues (getVertices (mesh a))\<rparr>"
proof -
  have inner: "fold (overlapStep vs i) js b =
      b\<lparr>issues := issues b @ concat (map (overlapIssues vs i) js)\<rparr>" for vs i js b
    by (rule fold_issues) (rule overlapStep_eq)
  show ?thesis
    unfolding checkOverlappingVertices_def Let_def allOverlapIssues_def
    by (rule fold_issues) (rule inner)
qed

lemma type_valenceIssues:
  "issue \<in> set (valenceIssues c i) \<Longrightarrow>
     type issue = LOW_VALENCE_VERTEX \<or> type issue = HIGH_VALENCE_VERTEX"
  by (auto simp: valenceIssues_def Let_def split: if_splits)

lemma type_allOverlapIssues:
  "issue \<in> set (allOverlapIssues vs) \<Longrightarrow> type issue = OVERLAPPING_VERTICES"
  by (auto simp: allOverlapIssues_def overlapIssues_def split: if_splits)

lemma type_nonManifoldIssue [simp]: "type (nonManifoldIssue entry) = NON_MANIFOLD_EDGE"
  by (simp add: nonManifoldIssue_def)

lemma reportExtends_refl [simp]: "reportExtends T a a"
  by (simp add: reportExtends_def)

lemma reportExtends_issue:
  assumes "reportExtends T a0 a" "type issue = T"
  shows "reportExtends T a0 (a\<lparr>issues := issues a @ [issue]\<rparr>)"
  using assms by (auto simp: reportExtends_def)

lemma reportExtends_metrics:
  assumes "reportExtends T a0 a"
  shows "reportExtends T a0 (a\<lparr>metrics := mt\<rparr>)"
  using assms by (auto simp: reportExtends_def)

lemma reportExtends_length:
  assumes "reportExtends T a0 a"
  shows "length (issues a0) \<le> length (issues a)"
  using assms by (auto simp: reportExtends_def)

subsection \<open>The degenerate-face pass\<close>

lemma degenerateFaceStep_skip:
  assumes "length (vertexIndices (getFaces m ! faceIdx)) < 3"
  shows "degenerateFaceStep m faceIdx st = Some st"
  using assms by (cases st) (simp add: degenerateFaceStep_def)

lemma degenerateFaceStep_area:
  assumes "\<not> length (vertexIndices (getFaces m ! faceIdx)) < 3"
    and "calculateTriangleArea m (vertexIndices (getFaces m ! faceIdx) ! 0)
           (vertexIndices (getFaces m ! faceIdx) ! 1) (vertexIndices (getFaces m ! faceIdx) ! 2)
         = Some area"
  shows "degenerateFaceStep m faceIdx (totalArea, minArea, maxArea, a) =
     Some (totalArea + area, min minArea area, max maxArea area,
           if area < DEGENERATE_THRESHOLD
           then a\<lparr>issues := issues a @
                    [\<lparr>type = DEGENERATE_FACE, elementIndex = faceIdx,
                      severity = 1 - area / DEGENERATE_THRESHOLD,
                      relatedElements = vertexIndices (getFaces m ! faceIdx)\<rparr>],
                  metrics := (metrics a)
                    \<lparr>degenerateFaceCount := degenerateFaceCount (metrics a) + 1\<rparr>\<rparr>
           else a)"
  unfolding degenerateFaceStep_def prod.case Let_def using assms by simp

lemma validMesh_first_three:
  assumes "validMesh m" "faceIdx < length (getFaces m)"
    "\<not> length (vertexIndices (getFaces m ! faceIdx)) < 3"
  shows "vertexIndices (getFaces m ! faceIdx) ! 0 < length (getVertices m)"
    "vertexIndices (getFaces m ! faceIdx) ! 1 < length (getVertices m)"
    "vertexIndices (getFaces m ! faceIdx) ! 2 < length (getVertices m)"
proof -
  have "\<forall>i \<in> set (vertexIndices (getFaces m ! faceIdx)). i < length (getVertices m)"
    using assms(1,2) unfolding validMesh_def by (meson nth_mem)
  moreover have "0 < length (vertexIndices (getFaces m ! faceIdx))"
    "1 < length (vertexIndices (getFaces m ! faceIdx))"
    "2 < length (vertexIndices (getFaces m ! faceIdx))"
    using assms(3) by linarith+
  ultimately show "vertexIndices (getFaces m ! faceIdx) ! 0 < length (getVertices m)"
    "vertexIndices (getFaces m ! faceIdx) ! 1 < length (getVertices m)"
    "vertexIndices (getFaces m ! faceIdx) ! 2 < length (getVertices m)"
    by (meson nth_mem)+
qed

lemma degenerateFaceStep_inv:
  assumes "validMesh m" "faceIdx < length (getFaces m)" "degenerateInv a0 st"
  shows "\<exists>st'. degenerateFaceStep m faceIdx st = Some st' \<and> degenerateInv a0 st'"
proof (cases "length (vertexIndices (getFaces m ! faceIdx)) < 3")
  case True
  then show ?thesis using assms(3) by (simp add: degenerateFaceStep_skip)
next
  case False
  obtain totalArea minArea maxArea a where st: "st = (totalArea, minArea, maxArea, a)"
    by (cases st)
  have r: "reportExtends DEGENERATE_FACE a0 a"
    and mt: "metrics a = (metrics a0)
          \<lparr>degenerateFaceCount :=
             degenerateFaceCount (metrics a0) + (length (issues a) - length (issues a0))\<rparr>"
    using assms(3) by (simp_all add: degenerateInv_def st)
  note v = validMesh_first_three[OF assms(1,2) False]
  define area where "area = triangleArea
      (getVertices m ! (vertexIndices (getFaces m ! faceIdx) ! 0))
      (getVertices m ! (vertexIndices (getFaces m ! faceIdx) ! 1))
      (getVertices m ! (vertexIndices (getFaces m ! faceIdx) ! 2))"
  have ar: "calculateTriangleArea m (vertexIndices (getFaces m ! faceIdx) ! 0)
           (vertexIndices (getFaces m ! faceIdx) ! 1) (vertexIndices (getFaces m ! faceIdx) ! 2)
         = Some area"
    unfolding area_def by (rule calculateTriangleArea_Some[OF v])
  note step = degenerateFaceStep_area[OF False ar, of totalArea minArea maxArea a]
  have le: "length (issues a0) \<le> length (issues a)" by (rule reportExtends_length[OF r])
  show ?thesis
  proof (cases "area < DEGENERATE_THRESHOLD")
    case True
    define issue where "issue = \<lparr>type = DEGENERATE_FACE, elementIndex = faceIdx,
                      severity = 1 - area / DEGENERATE_THRESHOLD,
                      relatedElements = vertexIndices (getFaces m ! faceIdx)\<rparr>"
    define a' where "a' = a\<lparr>issues := issues a @ [issue],
                  metrics := (metrics a)
                    \<lparr>degenerateFaceCount := degenerateFaceCount (metrics a) + 1\<rparr>\<rparr>"
    have s: "degenerateFaceStep m faceIdx st =
        Some (totalArea + area, min minArea area, max maxArea area, a')"
      using step True by (simp add: st a'_def issue_def)
    have "reportExtends DEGENERATE_FACE a0 (a\<lparr>issues := issues a @ [issue]\<rparr>)"
      by (rule reportExtends_issue[OF r]) (simp add: issue_def)
    then have r': "reportExtends DEGENERATE_FACE a0 a'"
      unfolding a'_def by (auto simp: reportExtends_def)
    have "metrics a' = (metrics a0)
          \<lparr>degenerateFaceCount :=
             degenerateFaceCount (metrics a0) + (length (issues a') - length (issues a0))\<rparr>"
      using le by (simp add: a'_def mt Suc_diff_le)
    then show ?thesis using r' by (simp add: s degenerateInv_def)
  next
    case False
    then have "degenerateFaceStep m faceIdx st =
        Some (totalArea + area, min minArea area, max maxArea area, a)"
      using step by (simp add: st)
    then show ?thesis using r mt by (simp add: degenerateInv_def)
  qed
qed

lemma checkDegenerateFaces_post:
  assumes "validMesh (mesh a)"
  shows "\<exists>a' minArea maxArea avgArea.
           checkDegenerateFaces a = Some a' \<and> reportExtends DEGENERATE_FACE a a' \<and>
           metrics a' = (metrics a)
             \<lparr>minFaceArea := minArea, maxFaceArea := maxArea, avgFaceArea := avgArea,
              degenerateFaceCount :=
                degenerateFaceCount (metrics a) + (length (issues a') - length (issues a))\<rparr>"
proof -
  have i0: "degenerateInv a (0, FLT_MAX, 0, a)"
    by (simp add: degenerateInv_def)
  have "\<exists>st'. for_each [0..<length (getFaces (mesh a))] (degenerateFaceStep (mesh a))
                 (0, FLT_MAX, 0, a) = Some st' \<and> degenerateInv a st'"
  proof (rule for_each_total[where I = "degenerateInv a", OF i0])
    fix x st
    assume "x \<in> set [0..<length (getFaces (mesh a))]" "degenerateInv a st"
    then show "\<exists>st'. degenerateFaceStep (mesh a) x st = Some st' \<and> degenerateInv a st'"
      using degenerateFaceStep_inv[OF assms] by simp
  qed
  then obtain totalArea minArea maxArea a1 where
    l: "for_each [0..<length (getFaces (mesh a))] (degenerateFaceStep (mesh a))
                 (0, FLT_MAX, 0, a) = Some (totalArea, minArea, maxArea, a1)"
    and r: "reportExtends DEGENERATE_FACE a a1"
    and mt: "metrics a1 = (metrics a)
          \<lparr>degenerateFaceCount :=
             degenerateFaceCount (metrics a) + (length (issues a1) - length (issues a))\<rparr>"
    by (auto simp: degenerateInv_def)
  show ?thesis
  proof (cases "length (getFaces (mesh a)) > 0")
    case True
    define a' where "a' = a1\<lparr>metrics := (metrics a1)
                  \<lparr>minFaceArea := minArea, maxFaceArea := maxArea,
                   avgFaceArea := totalArea / real (length (getFaces (mesh a)))\<rparr>\<rparr>"
    have c: "checkDegenerateFaces a = Some a'"
      unfolding checkDegenerateFaces_def Let_def l using True by (simp add: a'_def)
    have r': "reportExtends DEGENERATE_FACE a a'"
      unfolding a'_def by (rule reportExtends_metrics[OF r])
    have "metrics a' = (metrics a)
             \<lparr>minFaceArea := minArea, maxFaceArea := maxArea,
              avgFaceArea := totalArea / real (length (getFaces (mesh a))),
              degenerateFaceCount :=
                degenerateFaceCount (metrics a) + (length (issues a') - length (issues a))\<rparr>"
      by (simp add: a'_def mt)
    then show ?thesis using c r' by blast
  next
    case False
    have c: "checkDegenerateFaces a = Some a1"
      unfolding checkDegenerateFaces_def Let_def l using False by simp
    have "metrics a1 = (metrics a)
             \<lparr>minFaceArea := minFaceArea (metrics a), maxFaceArea := maxFaceArea (metrics a),
              avgFaceArea := avgFaceArea (metrics a),
              degenerateFaceCount :=
                degenerateFaceCount (metrics a) + (length (issues a1) - length (issues a))\<rparr>"
      by (simp add: mt)
    then show ?thesis using c r by blast
  qed
qed

subsection \<open>The aspect-ratio pass\<close>

lemma calculateAspectRatio_total:
  assumes "i < length (getVertices m)" "j < length (getVertices m)" "k < length (getVertices m)"
  shows "\<exists>ratio. calculateAspectRatio m i j k = Some ratio"
  unfolding calculateAspectRatio_def
  by (simp add: calculateDistance_Some calculateTriangleArea_Some assms Let_def)

lemma aspectRatioStep_skip:
  assumes "length (vertexIndices (getFaces m ! faceIdx)) < 3"
  shows "aspectRatioStep m faceIdx st = Some st"
  using assms by (cases st) (simp add: aspectRatioStep_def)

lemma aspectRatioStep_ratio:
  assumes "\<not> length (vertexIndices (getFaces m ! faceIdx)) < 3"
    and "calculateAspectRatio m (vertexIndices (getFaces m ! faceIdx) ! 0)
           (vertexIndices (getFaces m ! faceIdx) ! 1) (vertexIndices (getFaces m ! faceIdx) ! 2)
         = Some aspectRatio"
  shows "aspectRatioStep m faceIdx (totalRatio, minRatio, maxRatio, a) =
     Some (totalRatio + aspectRatio, min minRatio aspectRatio, max maxRatio aspectRatio,
           if aspectRatio > HIGH_ASPECT_THRESHOLD
           then a\<lparr>issues := issues a @
                    [\<lparr>type = HIGH_ASPECT_RATIO, elementIndex = faceIdx,
                      severity = min 1 ((aspectRatio - HIGH_ASPECT_THRESHOLD) / 30),
                      relatedElements = vertexIndices (getFaces m ! faceIdx)\<rparr>]\<rparr>
           else a)"
  unfolding aspectRatioStep_def prod.case Let_def using assms by simp

lemma aspectRatioStep_inv:
  assumes "validMesh m" "faceIdx < length (getFaces m)" "aspectInv a0 st"
  shows "\<exists>st'. aspectRatioStep m faceIdx st = Some st' \<and> aspectInv a0 st'"
proof (cases "length (vertexIndices (getFaces m ! faceIdx)) < 3")
  case True
  then show ?thesis using assms(3) by (simp add: aspectRatioStep_skip)
next
  case False
  obtain totalRatio minRatio maxRatio a where st: "st = (totalRatio, minRatio, maxRatio, a)"
    by (cases st)
  have r: "reportExtends HIGH_ASPECT_RATIO a0 a" and mt: "metrics a = metrics a0"
    using assms(3) by (simp_all add: aspectInv_def st)
  note v = validMesh_first_three[OF assms(1,2) False]
  obtain ratio where ar: "calculateAspectRatio m (vertexIndices (getFaces m ! faceIdx) ! 0)
           (vertexIndices (getFaces m ! faceIdx) ! 1) (vertexIndices (getFaces m ! faceIdx) ! 2)
         = Some ratio"
    using calculateAspectRatio_total[OF v] by blast
  note step = aspectRatioStep_ratio[OF False ar, of totalRatio minRatio maxRatio a]
  show ?thesis
  proof (cases "ratio > HIGH_ASPECT_THRESHOLD")
    case True
    define issue where "issue = \<lparr>type = HIGH_ASPECT_RATIO, elementIndex = faceIdx,
                      severity = min 1 ((ratio - HIGH_ASPECT_THRESHOLD) / 30),
                      relatedElements = vertexIndices (getFaces m ! faceIdx)\<rparr>"
    have s: "aspectRatioStep m faceIdx st =
        Some (totalRatio + ratio, min minRatio ratio, max maxRatio ratio,
              a\<lparr>issues := issues a @ [issue]\<rparr>)"
      using step True by (simp add: st issue_def)
    have "reportExtends HIGH_ASPECT_RATIO a0 (a\<lparr>issues := issues a @ [issue]\<rparr>)"
      by (rule reportExtends_issue[OF r]) (simp add: issue_def)
    then show ?thesis using mt by (simp add: s aspectInv_def)
  next
    case False
    then have "aspectRatioStep m faceIdx st =
        Some (totalRatio + ratio, min minRatio ratio, max maxRatio ratio, a)"
      using step by (simp add: st)
    then show ?thesis using r mt by (simp add: aspectInv_def)
  qed
qed

lemma checkAspectRatio_post:
  assumes "validMesh (mesh a)"
  shows "\<exists>a' minRatio maxRatio avgRatio.
           checkAspectRatio a = Some a' \<and> reportExtends HIGH_ASPECT_RATIO a a' \<and>
           metrics a' = (metrics a)
             \<lparr>minAspectRatio := minRatio, maxAspectRatio := maxRatio,
              avgAspectRatio := avgRatio\<rparr>"
proof -
  have i0: "aspectInv a (0, FLT_MAX, 0, a)"
    by (simp add: aspectInv_def)
  have "\<exists>st'. for_each [0..<length (getFaces (mesh a))] (aspectRatioStep (mesh a))
                 (0, FLT_MAX, 0, a) = Some st' \<and> aspectInv a st'"
  proof (rule for_each_total[where I = "aspectInv a", OF i0])
    fix x st
    assume "x \<in> set [0..<length (getFaces (mesh a))]" "aspectInv a st"
    then show "\<exists>st'. aspectRatioStep (mesh a) x st = Some st' \<and> aspectInv a st'"
      using aspectRatioStep_inv[OF assms] by simp
  qed
  then obtain totalRatio minRatio maxRatio a1 where
    l: "for_each [0..<length (getFaces (mesh a))] (aspectRatioStep (mesh a))
                 (0, FLT_MAX, 0, a) = Some (totalRatio, minRatio, maxRatio, a1)"
    and r: "reportExtends HIGH_ASPECT_RATIO a a1"
    and mt: "metrics a1 = metrics a"
    by (auto simp: aspectInv_def)
  show ?thesis
  proof (cases "length (getFaces (mesh a)) > 0")
    case True
    define a' where "a' = a1\<lparr>metrics := (metrics a1)
                  \<lparr>minAspectRatio := minRatio, maxAspectRatio := maxRatio,
                   avgAspectRatio := totalRatio / real (length (getFaces (mesh a)))\<rparr>\<rparr>"
    have c: "checkAspectRatio a = Some a'"
      unfolding checkAspectRatio_def Let_def l using True by (simp add: a'_def)
    have r': "reportExtends HIGH_ASPECT_RATIO a a'"
      unfolding a'_def by (rule reportExtends_metrics[OF r])
    have "metrics a' = (metrics a)
             \<lparr>minAspectRatio := minRatio, maxAspectRatio := maxRatio,
              avgAspectRatio := totalRatio / real (length (getFaces (mesh a)))\<rparr>"
      by (simp add: a'_def mt)
    then show ?thesis using c r' by blast
  next
    case False
    have c: "checkAspectRatio a = Some a1"
      unfolding checkAspectRatio_def Let_def l using False by simp
    have "metrics a1 = (metrics a)
             \<lparr>minAspectRatio := minAspectRatio (metrics a),
              maxAspectRatio := maxAspectRatio (metrics a),
              avgAspectRatio := avgAspectRatio (metrics a)\<rparr>"
      by (simp add: mt)
    then show ?thesis using c r by blast
  qed
qed

subsection \<open>The UV-stretch pass\<close>

lemma calculateUVStretch_total:
  assumes "validMesh m" "faceIdx < length (getFaces m)"
  shows "\<exists>stretch. calculateUVStretch m faceIdx = Some stretch"
proof (cases "length (vertexIndices (getFaces m ! faceIdx)) < 3 \<or>
              length (texCoordIndices (getFaces m ! faceIdx)) < 3")
  case True
  then show ?thesis using assms(2) by (auto simp: calculateUVStretch_def)
next
  case False
  then have "\<not> length (vertexIndices (getFaces m ! faceIdx)) < 3" by simp
  note v = validMesh_first_three[OF assms this]
  show ?thesis
    unfolding calculateUVStretch_def
    using False assms(2) v by (simp add: calculateTriangleArea_Some Let_def)
qed

lemma uvStretchStep_stretch:
  assumes "calculateUVStretch m faceIdx = Some stretch"
  shows "uvStretchStep m faceIdx (totalStretch, stretchableCount, a) =
     Some (if stretch > 0
           then (totalStretch + stretch, stretchableCount + 1,
                 if stretch > HIGH_STRETCH_THRESHOLD
                 then a\<lparr>issues := issues a @
                         [\<lparr>type = TEXTURE_STRETCH, elementIndex = faceIdx,
                           severity = min 1 ((stretch - HIGH_STRETCH_THRESHOLD) / 6),
                           relatedElements = vertexIndices (getFaces m ! faceIdx)\<rparr>]\<rparr>
                 else a)
           else (totalStretch, stretchableCount, a))"
  unfolding uvStretchStep_def prod.case using assms by simp

lemma uvStretchStep_inv:
  assumes "validMesh m" "faceIdx < length (getFaces m)" "stretchInv a0 st"
  shows "\<exists>st'. uvStretchStep m faceIdx st = Some st' \<and> stretchInv a0 st'"
proof -
  obtain totalStretch stretchableCount a where st: "st = (totalStretch, stretchableCount, a)"
    by (cases st)
  have r: "reportExtends TEXTURE_STRETCH a0 a" and mt: "metrics a = metrics a0"
    using assms(3) by (simp_all add: stretchInv_def st)
  obtain stretch where s: "calculateUVStretch m faceIdx = Some stretch"
    using calculateUVStretch_total[OF assms(1,2)] by blast
  define issue where "issue = \<lparr>type = TEXTURE_STRETCH, elementIndex = faceIdx,
                           severity = min 1 ((stretch - HIGH_STRETCH_THRESHOLD) / 6),
                           relatedElements = vertexIndices (getFaces m ! faceIdx)\<rparr>"
  have "reportExtends TEXTURE_STRETCH a0 (a\<lparr>issues := issues a @ [issue]\<rparr>)"
    by (rule reportExtends_issue[OF r]) (simp add: issue_def)
  then show ?thesis
    unfolding st uvStretchStep_stretch[OF s] using r mt
    by (simp add: stretchInv_def issue_def)
qed

lemma checkUVStretch_post:
  assumes "validMesh (mesh a)"
  shows "\<exists>a' factor.
           checkUVStretch a = Some a' \<and> reportExtends TEXTURE_STRETCH a a' \<and>
           metrics a' = (metrics a)\<lparr>uvStretchFactor := factor\<rparr>"
proof -
  have i0: "stretchInv a (0, 0, a)"
    by (simp add: stretchInv_def)
  have "\<exists>st'. for_each [0..<length (getFaces (mesh a))] (uvStretchStep (mesh a)) (0, 0, a) = Some st'
          \<and> stretchInv a st'"
  proof (rule for_each_total[where I = "stretchInv a", OF i0])
    fix x st
    assume "x \<in> set [0..<length (getFaces (mesh a))]" "stretchInv a st"
    then show "\<exists>st'. uvStretchStep (mesh a) x st = Some st' \<and> stretchInv a st'"
      using uvStretchStep_inv[OF assms] by simp
  qed
  then obtain totalStretch stretchableCount a1 where
    l: "for_each [0..<length (getFaces (mesh a))] (uvStretchStep (mesh a)) (0, 0, a)
          = Some (totalStretch, stretchableCount, a1)"
    and r: "reportExtends TEXTURE_STRETCH a a1"
    and mt: "metrics a1 = metrics a"
    by (auto simp: stretchInv_def)
  show ?thesis
  proof (cases "stretchableCount > 0")
    case True
    define a' where "a' = a1\<lparr>metrics := (metrics a1)
                  \<lparr>uvStretchFactor := totalStretch / real stretchableCount\<rparr>\<rparr>"
    have c: "checkUVStretch a = Some a'"
      unfolding checkUVStretch_def l using True by (simp add: a'_def)
    have r': "reportExtends TEXTURE_STRETCH a a'"
      unfolding a'_def by (rule reportExtends_metrics[OF r])
    have "metrics a' = (metrics a)\<lparr>uvStretchFactor := totalStretch / real stretchableCount\<rparr>"
      by (simp add: a'_def mt)
    then show ?thesis using c r' by blast
  next
    case False
    have c: "checkUVStretch a = Some a1"
      unfolding checkUVStretch_def l using False by simp
    have "metrics a1 = (metrics a)\<lparr>uvStretchFactor := uvStretchFactor (metrics a)\<rparr>"
      by (simp add: mt)
    then show ?thesis using c r by blast
  qed
qed

subsection \<open>The normal-direction pass\<close>

lemma addsAtMostOne_Let: "(\<And>v. addsAtMostOne T a (f v)) \<Longrightarrow> addsAtMostOne T a (Let t f)"
  by simp

lemma addsAtMostOne_if:
  "addsAtMostOne T a x \<Longrightarrow> addsAtMostOne T a y \<Longrightarrow> addsAtMostOne T a (if c then x else y)"
  by simp

lemma addsAtMostOne_same: "addsAtMostOne T a (Some a)"
  by (simp add: addsAtMostOne_def)

lemma addsAtMostOne_Some_if:
  "addsAtMostOne T a (Some x) \<Longrightarrow> addsAtMostOne T a (Some y)
     \<Longrightarrow> addsAtMostOne T a (Some (if c then x else y))"
  by simp

lemma addsAtMostOne_issue:
  "addsAtMostOne T a
     (Some (a\<lparr>issues := issues a @
        [\<lparr>type = T, elementIndex = e, severity = s, relatedElements = r\<rparr>]\<rparr>))"
  unfolding addsAtMostOne_def
  by (rule exI[of _ "a\<lparr>issues := issues a @
        [\<lparr>type = T, elementIndex = e, severity = s, relatedElements = r\<rparr>]\<rparr>"])
     (auto intro: exI[of _ "\<lparr>type = T, elementIndex = e, severity = s, relatedElements = r\<rparr>"])

lemma addsAtMostOne_at_index:
  "i < length xs \<Longrightarrow> (\<And>v. addsAtMostOne T a (f v)) \<Longrightarrow>
     addsAtMostOne T a (Option.bind (at_index xs i) f)"
  by simp

lemma normalDirectionStep_adds:
  assumes "validMesh m" "faceIdx < length (getFaces m)"
  shows "addsAtMostOne INVERTED_NORMAL a (normalDirectionStep m faceIdx a)"
proof (cases "length (vertexIndices (getFaces m ! faceIdx)) < 3")
  case True
  then show ?thesis by (simp add: normalDirectionStep_def addsAtMostOne_same)
next
  case False
  note v = validMesh_first_three[OF assms False]
  show ?thesis
    unfolding normalDirectionStep_def Let_def[of "getFaces m ! faceIdx"]
    by (intro addsAtMostOne_Let addsAtMostOne_if addsAtMostOne_same addsAtMostOne_Some_if
        addsAtMostOne_issue addsAtMostOne_at_index v)
qed

lemma addsAtMostOne_reportExtends:
  assumes "addsAtMostOne T a r" "reportExtends T a0 a" "metrics a = metrics a0"
  shows "\<exists>a'. r = Some a' \<and> reportExtends T a0 a' \<and> metrics a' = metrics a0"
  using assms(1) reportExtends_issue[OF assms(2)] assms(2,3)
  by (auto simp: addsAtMostOne_def)

lemma checkNormalDirection_post:
  assumes "validMesh (mesh a)"
  shows "\<exists>a'. checkNormalDirection a = Some a' \<and> reportExtends INVERTED_NORMAL a a' \<and>
           metrics a' = metrics a"
  unfolding checkNormalDirection_def
proof (rule for_each_total[where I = "\<lambda>a1. reportExtends INVERTED_NORMAL a a1 \<and> metrics a1 = metrics a"])
  show "reportExtends INVERTED_NORMAL a a \<and> metrics a = metrics a" by simp
next
  fix x a1
  assume x: "x \<in> set [0..<length (getFaces (mesh a))]"
    and i: "reportExtends INVERTED_NORMAL a a1 \<and> metrics a1 = metrics a"
  have "addsAtMostOne INVERTED_NORMAL a1 (normalDirectionStep (mesh a) x a1)"
    by (rule normalDirectionStep_adds[OF assms]) (use x in simp)
  then show "\<exists>a'. normalDirectionStep (mesh a) x a1 = Some a' \<and>
          reportExtends INVERTED_NORMAL a a' \<and> metrics a' = metrics a"
    using addsAtMostOne_reportExtends i by blast
qed

subsection \<open>The sharp-angle pass\<close>

lemma returns_Some: "returns (Some x)"
  by (simp add: returns_def)

lemma returns_Let: "(\<And>v. returns (f v)) \<Longrightarrow> returns (Let t f)"
  by simp

lemma returns_triple: "(\<And>x y z. returns (f x y z)) \<Longrightarrow> returns (case p of (x, y, z) \<Rightarrow> f x y z)"
  by (cases p) simp

lemma returns_at_index:
  "i < length xs \<Longrightarrow> (\<And>v. returns (f v)) \<Longrightarrow> returns (Option.bind (at_index xs i) f)"
  by simp

lemma firstNonShared_valid:
  assumes "\<forall>v \<in> set vis. v < n" "0 < n"
  shows "firstNonShared vis s1 s2 < n"
proof (cases "find (\<lambda>idx. idx \<noteq> s1 \<and> idx \<noteq> s2) vis")
  case None
  then show ?thesis using assms(2) by (simp add: firstNonShared_def)
next
  case (Some idx)
  then have "idx \<in> set vis" by (auto simp: find_Some_iff)
  then show ?thesis using assms(1) Some by (simp add: firstNonShared_def)
qed

lemma calculateDihedralAngle_total:
  assumes "validMesh m" "f1 < length (getFaces m)" "f2 < length (getFaces m)"
    "s1 < length (getVertices m)" "s2 < length (getVertices m)"
  shows "\<exists>angle. calculateDihedralAngle m f1 f2 s1 s2 = Some angle"
proof -
  have pos: "0 < length (getVertices m)" using assms(4) by linarith
  have v: "\<forall>v \<in> set (vertexIndices (getFaces m ! f)). v < length (getVertices m)"
    if "f < length (getFaces m)" for f
    using assms(1) that unfolding validMesh_def by (meson nth_mem)
  have n1: "firstNonShared (vertexIndices (getFaces m ! f1)) s1 s2 < length (getVertices m)"
    by (rule firstNonShared_valid[OF v[OF assms(2)] pos])
  have n2: "firstNonShared (vertexIndices (getFaces m ! f2)) s1 s2 < length (getVertices m)"
    by (rule firstNonShared_valid[OF v[OF assms(3)] pos])
  have "returns (calculateDihedralAngle m f1 f2 s1 s2)"
    unfolding calculateDihedralAngle_def
    apply (simp only: at_index_simps(1)[OF assms(2)] at_index_simps(1)[OF assms(3)]
        Option.bind.bind_lunit
        Let_def[of "firstNonShared (vertexIndices (getFaces m ! f1)) s1 s2"]
        Let_def[of "firstNonShared (vertexIndices (getFaces m ! f2)) s1 s2"])
    apply (intro returns_at_index assms(4,5) n1 n2 returns_Let returns_triple returns_Some)
    done
  then show ?thesis by (simp add: returns_def)
qed

lemma sharpAngleStep_post:
  assumes "validMesh m" "topologyValid (length (getVertices m)) (length (getFaces m)) efm"
    "entry \<in> set efm"
  shows "\<exists>a' mn mx.
           sharpAngleStep m entry a = Some a' \<and> reportExtends SHARP_ANGLE a a' \<and>
           metrics a' = (metrics a)\<lparr>minDihedralAngle := mn, maxDihedralAngle := mx\<rparr>"
proof -
  obtain edge fs where e: "entry = (edge, fs)" by (cases entry)
  show ?thesis
  proof (cases "length fs = 2")
    case False
    have "metrics a = (metrics a)\<lparr>minDihedralAngle := minDihedralAngle (metrics a),
             maxDihedralAngle := maxDihedralAngle (metrics a)\<rparr>" by simp
    then show ?thesis
      unfolding e sharpAngleStep_other[OF False] using reportExtends_refl by blast
  next
    case True
    have tv: "fst edge < length (getVertices m)" "snd edge < length (getVertices m)"
      "\<forall>f \<in> set fs. f < length (getFaces m)"
      using assms(2,3) unfolding topologyValid_def e by auto
    have "fs ! 0 \<in> set fs" "fs ! 1 \<in> set fs" using True by simp_all
    then have fv: "fs ! 0 < length (getFaces m)" "fs ! 1 < length (getFaces m)"
      using tv(3) by blast+
    obtain angle where
      c: "calculateDihedralAngle m (fs ! 0) (fs ! 1) (fst edge) (snd edge) = Some angle"
      using calculateDihedralAngle_total[OF assms(1) fv tv(1,2)] by blast
    define a1 where "a1 = (if angle < minDihedralAngle (metrics a) \<or> minDihedralAngle (metrics a) < 0.1
                    then a\<lparr>metrics := (metrics a)\<lparr>minDihedralAngle := angle\<rparr>\<rparr>
                    else a)"
    define a2 where "a2 = (if angle > maxDihedralAngle (metrics a1)
                    then a1\<lparr>metrics := (metrics a1)\<lparr>maxDihedralAngle := angle\<rparr>\<rparr>
                    else a1)"
    define issue where "issue = \<lparr>type = SHARP_ANGLE, elementIndex = fst edge,
                           severity = 1 - angle / SHARP_ANGLE_THRESHOLD,
                           relatedElements = [snd edge]\<rparr>"
    define a3 where "a3 = (if angle < SHARP_ANGLE_THRESHOLD
                then a2\<lparr>issues := issues a2 @ [issue]\<rparr> else a2)"
    have s: "sharpAngleStep m entry a = Some a3"
      unfolding e sharpAngleStep_manifold[OF True c] a3_def a2_def a1_def issue_def Let_def
      by (rule refl)
    have r1: "reportExtends SHARP_ANGLE a a1"
      unfolding a1_def by (simp add: reportExtends_metrics)
    have r2: "reportExtends SHARP_ANGLE a a2"
      unfolding a2_def using r1 by (simp add: reportExtends_metrics)
    have r3: "reportExtends SHARP_ANGLE a a3"
      unfolding a3_def using r2 by (simp add: reportExtends_issue issue_def)
    have m1: "\<exists>mn. metrics a1 = (metrics a)\<lparr>minDihedralAngle := mn\<rparr>"
    proof (cases "angle < minDihedralAngle (metrics a) \<or> minDihedralAngle (metrics a) < 0.1")
      case True
      then show ?thesis unfolding a1_def by auto
    next
      case False
      have "metrics a = (metrics a)\<lparr>minDihedralAngle := minDihedralAngle (metrics a)\<rparr>" by simp
      moreover have "a1 = a" unfolding a1_def using False by simp
      ultimately show ?thesis by blast
    qed
    then obtain mn where mn: "metrics a1 = (metrics a)\<lparr>minDihedralAngle := mn\<rparr>" ..
    have "\<exists>mx. metrics a2 = (metrics a)\<lparr>minDihedralAngle := mn, maxDihedralAngle := mx\<rparr>"
    proof (cases "angle > maxDihedralAngle (metrics a1)")
      case True
      then show ?thesis unfolding a2_def by (auto simp: mn)
    next
      case False
      have "metrics a1 = (metrics a)\<lparr>minDihedralAngle := mn,
          maxDihedralAngle := maxDihedralAngle (metrics a)\<rparr>" by (simp add: mn)
      moreover have "a2 = a1" unfolding a2_def using False by simp
      ultimately show ?thesis by blast
    qed
    then obtain mx where
      "metrics a2 = (metrics a)\<lparr>minDihedralAngle := mn, maxDihedralAngle := mx\<rparr>" ..
    then have "metrics a3 = (metrics a)\<lparr>minDihedralAngle := mn, maxDihedralAngle := mx\<rparr>"
      unfolding a3_def by simp
    then show ?thesis using s r3 by blast
  qed
qed

lemma reportExtends_trans:
  assumes "reportExtends T a b" "reportExtends T b c"
  shows "reportExtends T a c"
proof -
  from assms(1) obtain n1 where n1: "issues b = issues a @ n1" "\<forall>i \<in> set n1. type i = T"
    by (auto simp: reportExtends_def)
  from assms(2) obtain n2 where n2: "issues c = issues b @ n2" "\<forall>i \<in> set n2. type i = T"
    by (auto simp: reportExtends_def)
  have "issues c = issues a @ (n1 @ n2)" "\<forall>i \<in> set (n1 @ n2). type i = T"
    using n1 n2 by auto
  then have "\<exists>new. issues c = issues a @ new \<and> (\<forall>i \<in> set new. type i = T)" by blast
  then show ?thesis using assms by (simp add: reportExtends_def)
qed

lemma checkSharpAngles_post:
  assumes "validMesh (mesh a)"
    "topologyValid (length (getVertices (mesh a))) (length (getFaces (mesh a))) (edgeFaceMap a)"
  shows "\<exists>a' mn mx.
           checkSharpAngles a = Some a' \<and> reportExtends SHARP_ANGLE a a' \<and>
           metrics a' = (metrics a)\<lparr>minDihedralAngle := mn, maxDihedralAngle := mx\<rparr>"
proof -
  have "\<exists>a'. for_each (edgeFaceMap a) (sharpAngleStep (mesh a)) a = Some a' \<and> sharpInv a a'"
  proof (rule for_each_total[where I = "sharpInv a"])
    have "metrics a = (metrics a)\<lparr>minDihedralAngle := minDihedralAngle (metrics a),
             maxDihedralAngle := maxDihedralAngle (metrics a)\<rparr>" by simp
    then show "sharpInv a a" unfolding sharpInv_def using reportExtends_refl by blast
  next
    fix entry a1
    assume en: "entry \<in> set (edgeFaceMap a)" and i: "sharpInv a a1"
    from sharpAngleStep_post[OF assms en, of a1] obtain a2 mn mx where
      s: "sharpAngleStep (mesh a) entry a1 = Some a2" and r: "reportExtends SHARP_ANGLE a1 a2"
      and mt: "metrics a2 = (metrics a1)\<lparr>minDihedralAngle := mn, maxDihedralAngle := mx\<rparr>"
      by blast
    from i obtain mn1 mx1 where r1: "reportExtends SHARP_ANGLE a a1"
      and m1: "metrics a1 = (metrics a)\<lparr>minDihedralAngle := mn1, maxDihedralAngle := mx1\<rparr>"
      by (auto simp: sharpInv_def)
    have "metrics a2 = (metrics a)\<lparr>minDihedralAngle := mn, maxDihedralAngle := mx\<rparr>"
      by (simp add: mt m1)
    then have "sharpInv a a2"
      unfolding sharpInv_def using reportExtends_trans[OF r1 r] by blast
    then show "\<exists>a'. sharpAngleStep (mesh a) entry a1 = Some a' \<and> sharpInv a a'"
      using s by simp
  qed
  then show ?thesis unfolding checkSharpAngles_def sharpInv_def by blast
qed

subsection \<open>A complete run\<close>

lemma reportExtendsE:
  assumes "reportExtends T a a'"
  obtains new where "issues a' = issues a @ new" "\<forall>i \<in> set new. type i = T"
    "mesh a' = mesh a" "minQualityThreshold a' = minQualityThreshold a"
    "edgeFaceMap a' = edgeFaceMap a" "vertexConnectivity a' = vertexConnectivity a"
  using assms unfolding reportExtends_def by blast

lemma analyzeQuality_run:
  assumes "validMesh (mesh a)"
  shows "\<exists>a' degenerate aspect normals stretch sharp a1 a8 a2.
     analyzeQuality a = Some a' \<and>
     mesh a' = mesh a \<and> minQualityThreshold a' = minQualityThreshold a \<and>
     builtOn (a\<lparr>issues := []\<rparr>) (a'\<lparr>issues := [], metrics := metrics a\<rparr>) \<and>
     issues a' =
       degenerate @ aspect @ map nonManifoldIssue (nonManifoldEntries (edgeFaceMap a')) @
       concat (map (valenceIssues (vertexConnectivity a')) [0..<length (vertexConnectivity a')]) @
       allOverlapIssues (getVertices (mesh a)) @ normals @ stretch @ sharp \<and>
     (\<forall>i \<in> set degenerate. type i = DEGENERATE_FACE) \<and>
     (\<forall>i \<in> set aspect. type i = HIGH_ASPECT_RATIO) \<and>
     (\<forall>i \<in> set normals. type i = INVERTED_NORMAL) \<and>
     (\<forall>i \<in> set stretch. type i = TEXTURE_STRETCH) \<and>
     (\<forall>i \<in> set sharp. type i = SHARP_ANGLE) \<and>
     degenerateFaceCount (metrics a') = degenerateFaceCount (metrics a) + length degenerate \<and>
     nonManifoldEdgeCount (metrics a') =
       nonManifoldEdgeCount (metrics a) + length (nonManifoldEntries (edgeFaceMap a')) \<and>
     buildTopology (a\<lparr>issues := []\<rparr>) = Some a1 \<and>
     edgeFaceMap a' = edgeFaceMap a1 \<and> vertexConnectivity a' = vertexConnectivity a1 \<and>
     checkSharpAngles a8 = Some a' \<and> mesh a8 = mesh a \<and> edgeFaceMap a8 = edgeFaceMap a1 \<and>
     minDihedralAngle (metrics a8) = minDihedralAngle (metrics a) \<and>
     maxDihedralAngle (metrics a8) = maxDihedralAngle (metrics a) \<and>
     mesh a1 = mesh a \<and> issues a1 = [] \<and>
     checkDegenerateFaces a1 = Some a2 \<and> issues a2 = degenerate"
proof -
  define a0 where "a0 = a\<lparr>issues := []\<rparr>"
  have v0: "validMesh (mesh a0)" using assms by (simp add: a0_def)
  obtain a1 where b1: "buildTopology a0 = Some a1" and bo: "builtOn a0 a1"
    using buildTopology_builtOn[OF v0] by blast
  have m1: "mesh a1 = mesh a" "issues a1 = []" "metrics a1 = metrics a"
    "minQualityThreshold a1 = minQualityThreshold a"
    using bo by (simp_all add: builtOn_def a0_def)
  have v1: "validMesh (mesh a1)" using assms m1 by simp
  obtain a2 mnA mxA avA where b2: "checkDegenerateFaces a1 = Some a2"
    and r2: "reportExtends DEGENERATE_FACE a1 a2"
    and mt2: "metrics a2 = (metrics a1)
             \<lparr>minFaceArea := mnA, maxFaceArea := mxA, avgFaceArea := avA,
              degenerateFaceCount :=
                degenerateFaceCount (metrics a1) + (length (issues a2) - length (issues a1))\<rparr>"
    using checkDegenerateFaces_post[OF v1] by blast
  from r2 obtain degenerate where i2: "issues a2 = issues a1 @ degenerate"
    "\<forall>i \<in> set degenerate. type i = DEGENERATE_FACE"
    and f2: "mesh a2 = mesh a1" "minQualityThreshold a2 = minQualityThreshold a1"
    "edgeFaceMap a2 = edgeFaceMap a1" "vertexConnectivity a2 = vertexConnectivity a1"
    by (rule reportExtendsE)
  have v2: "validMesh (mesh a2)" using v1 f2 by simp
  obtain a3 mnR mxR avR where b3: "checkAspectRatio a2 = Some a3"
    and r3: "reportExtends HIGH_ASPECT_RATIO a2 a3"
    and mt3: "metrics a3 = (metrics a2)
             \<lparr>minAspectRatio := mnR, maxAspectRatio := mxR, avgAspectRatio := avR\<rparr>"
    using checkAspectRatio_post[OF v2] by blast
  from r3 obtain aspect where i3: "issues a3 = issues a2 @ aspect"
    "\<forall>i \<in> set aspect. type i = HIGH_ASPECT_RATIO"
    and f3: "mesh a3 = mesh a2" "minQualityThreshold a3 = minQualityThreshold a2"
    "edgeFaceMap a3 = edgeFaceMap a2" "vertexConnectivity a3 = vertexConnectivity a2"
    by (rule reportExtendsE)
  define a4 where "a4 = checkNonManifoldEdges a3"
  define a5 where "a5 = checkVertexValence a4"
  define a6 where "a6 = checkOverlappingVertices a5"
  have f4: "mesh a4 = mesh a3" "minQualityThreshold a4 = minQualityThreshold a3"
    "edgeFaceMap a4 = edgeFaceMap a3" "vertexConnectivity a4 = vertexConnectivity a3"
    and i4: "issues a4 = issues a3 @ map nonManifoldIssue (nonManifoldEntries (edgeFaceMap a3))"
    and mt4: "metrics a4 = (metrics a3)\<lparr>nonManifoldEdgeCount :=
            nonManifoldEdgeCount (metrics a3) + length (nonManifoldEntries (edgeFaceMap a3))\<rparr>"
    by (simp_all add: a4_def checkNonManifoldEdges_eq)
  have f5: "mesh a5 = mesh a4" "minQualityThreshold a5 = minQualityThreshold a4"
    "edgeFaceMap a5 = edgeFaceMap a4" "vertexConnectivity a5 = vertexConnectivity a4"
    "metrics a5 = metrics a4"
    and i5: "issues a5 = issues a4 @
       concat (map (valenceIssues (vertexConnectivity a4)) [0..<length (vertexConnectivity a4)])"
    by (simp_all add: a5_def checkVertexValence_eq)
  have f6: "mesh a6 = mesh a5" "minQualityThreshold a6 = minQualityThreshold a5"
    "edgeFaceMap a6 = edgeFaceMap a5" "vertexConnectivity a6 = vertexConnectivity a5"
    "metrics a6 = metrics a5"
    and i6: "issues a6 = issues a5 @ allOverlapIssues (getVertices (mesh a5))"
    by (simp_all add: a6_def checkOverlappingVertices_eq)
  have v6: "validMesh (mesh a6)" using v2 f3 f4 f5 f6 by simp
  obtain a7 where b7: "checkNormalDirection a6 = Some a7"
    and r7: "reportExtends INVERTED_NORMAL a6 a7" and mt7: "metrics a7 = metrics a6"
    using checkNormalDirection_post[OF v6] by blast
  from r7 obtain normals where i7: "issues a7 = issues a6 @ normals"
    "\<forall>i \<in> set normals. type i = INVERTED_NORMAL"
    and f7: "mesh a7 = mesh a6" "minQualityThreshold a7 = minQualityThreshold a6"
    "edgeFaceMap a7 = edgeFaceMap a6" "vertexConnectivity a7 = vertexConnectivity a6"
    by (rule reportExtendsE)
  have v7: "validMesh (mesh a7)" using v6 f7 by simp
  obtain a8 uf where b8: "checkUVStretch a7 = Some a8"
    and r8: "reportExtends TEXTURE_STRETCH a7 a8"
    and mt8: "metrics a8 = (metrics a7)\<lparr>uvStretchFactor := uf\<rparr>"
    using checkUVStretch_post[OF v7] by blast
  from r8 obtain stretch where i8: "issues a8 = issues a7 @ stretch"
    "\<forall>i \<in> set stretch. type i = TEXTURE_STRETCH"
    and f8: "mesh a8 = mesh a7" "minQualityThreshold a8 = minQualityThreshold a7"
    "edgeFaceMap a8 = edgeFaceMap a7" "vertexConnectivity a8 = vertexConnectivity a7"
    by (rule reportExtendsE)
  have v8: "validMesh (mesh a8)" using v7 f8 by simp
  have e8: "edgeFaceMap a8 = edgeFaceMap a1" "vertexConnectivity a8 = vertexConnectivity a1"
    "mesh a8 = mesh a"
    using f2 f3 f4 f5 f6 f7 f8 m1 by simp_all
  have t8: "topologyValid (length (getVertices (mesh a8))) (length (getFaces (mesh a8)))
      (edgeFaceMap a8)"
    using bo e8 by (simp add: builtOn_def a0_def)
  obtain a9 mn mx where b9: "checkSharpAngles a8 = Some a9"
    and r9: "reportExtends SHARP_ANGLE a8 a9"
    and mt9: "metrics a9 = (metrics a8)\<lparr>minDihedralAngle := mn, maxDihedralAngle := mx\<rparr>"
    using checkSharpAngles_post[OF v8 t8] by blast
  from r9 obtain sharp where i9: "issues a9 = issues a8 @ sharp"
    "\<forall>i \<in> set sharp. type i = SHARP_ANGLE"
    and f9: "mesh a9 = mesh a8" "minQualityThreshold a9 = minQualityThreshold a8"
    "edgeFaceMap a9 = edgeFaceMap a8" "vertexConnectivity a9 = vertexConnectivity a8"
    by (rule reportExtendsE)
  have run: "analyzeQuality a = Some a9"
    unfolding analyzeQuality_def a0_def[symmetric] b1
    by (simp add: b2 b3 a4_def[symmetric] a5_def[symmetric] a6_def[symmetric] b7 b8 b9
        calculateOverallMetrics_def)
  have e9: "edgeFaceMap a9 = edgeFaceMap a1" "vertexConnectivity a9 = vertexConnectivity a1"
    "mesh a9 = mesh a" "minQualityThreshold a9 = minQualityThreshold a"
    using f2 f3 f4 f5 f6 f7 f8 f9 m1 by simp_all
  have iss: "issues a9 =
       degenerate @ aspect @ map nonManifoldIssue (nonManifoldEntries (edgeFaceMap a9)) @
       concat (map (valenceIssues (vertexConnectivity a9)) [0..<length (vertexConnectivity a9)]) @
       allOverlapIssues (getVertices (mesh a)) @ normals @ stretch @ sharp"
    using i2 i3 i4 i5 i6 i7 i8 i9 m1 f2 f3 f4 f5 f6 e9 by simp
  have dc: "degenerateFaceCount (metrics a9) = degenerateFaceCount (metrics a) + length degenerate"
    by (simp add: mt9 mt8 mt7 f6 f5 mt4 mt3 mt2 m1 i2)
  have nc: "nonManifoldEdgeCount (metrics a9) =
       nonManifoldEdgeCount (metrics a) + length (nonManifoldEntries (edgeFaceMap a9))"
    by (simp add: mt9 mt8 mt7 f6 f5 mt4 mt3 mt2 m1 e9 f3 f2)
  have bo': "builtOn (a\<lparr>issues := []\<rparr>) (a9\<lparr>issues := [], metrics := metrics a\<rparr>)"
    using bo e9 by (simp add: builtOn_def a0_def)
  have d8: "minDihedralAngle (metrics a8) = minDihedralAngle (metrics a)"
    "maxDihedralAngle (metrics a8) = maxDihedralAngle (metrics a)"
    by (simp_all add: mt8 mt7 f6 f5 mt4 mt3 mt2 m1)
  have b1': "buildTopology (a\<lparr>issues := []\<rparr>) = Some a1"
    using b1 by (simp add: a0_def)
  have b9': "checkSharpAngles a8 = Some a9" by (rule b9)
  have i2': "issues a2 = degenerate" using i2(1) m1(2) by simp
  show ?thesis
    using run e9(3,4) bo' iss i2(2) i3(2) i7(2) i8(2) i9(2) dc nc b1' e9(1,2) b9' e8(3,1) d8
      m1(1,2) b2 i2'
    by blast
qed

section \<open>The report of a run\<close>

subsection \<open>Filtering a report by type\<close>

lemma filter_type_other:
  assumes "\<forall>i \<in> set xs. type i = T'" "T' \<noteq> T"
  shows "filter (\<lambda>i. type i = T) xs = []"
  using assms by (induction xs) auto

lemma filter_type_same:
  assumes "\<forall>i \<in> set xs. type i = T"
  shows "filter (\<lambda>i. type i = T) xs = xs"
  using assms by (induction xs) auto

lemma filter_type_valence:
  assumes "T \<noteq> LOW_VALENCE_VERTEX" "T \<noteq> HIGH_VALENCE_VERTEX"
  shows "filter (\<lambda>i. type i = T) (concat (map (valenceIssues c) xs)) = []"
proof -
  have "\<forall>i \<in> set (concat (map (valenceIssues c) xs)). type i \<noteq> T"
    using assms type_valenceIssues by fastforce
  then show ?thesis by (simp add: filter_empty_conv)
qed

lemma filter_type_overlap:
  "filter (\<lambda>i. type i = OVERLAPPING_VERTICES) (allOverlapIssues vs) = allOverlapIssues vs"
  by (rule filter_type_same) (simp add: type_allOverlapIssues)

lemma filter_type_nonManifold:
  "filter (\<lambda>i. type i = NON_MANIFOLD_EDGE) (map nonManifoldIssue es) = map nonManifoldIssue es"
  by (rule filter_type_same) auto

subsection \<open>Exactly one overlapping pair\<close>

lemma concat_single_hit:
  "concat (map (\<lambda>q. if q = j then xs else []) [lo..<hi]) = (if lo \<le> j \<and> j < hi then xs else [])"
  by (induction hi) auto

lemma concat_no_hit: "concat (map (\<lambda>q. []) ys) = []"
  by (induction ys) auto

lemma allOverlapIssues_single:
  assumes "i < j" "j < length vs"
    and hit: "overlapIssues vs i j = xs"
    and miss: "\<And>p q. p < q \<Longrightarrow> q < length vs \<Longrightarrow> (p, q) \<noteq> (i, j) \<Longrightarrow> overlapIssues vs p q = []"
  shows "allOverlapIssues vs = xs"
proof -
  have inner: "concat (map (overlapIssues vs p) [p + 1..<length vs]) = (if p = i then xs else [])"
    if "p < length vs" for p
  proof (cases "p = i")
    case True
    have h: "map (overlapIssues vs i) [i + 1..<length vs]
            = map (\<lambda>q. if q = j then xs else []) [i + 1..<length vs]"
      by (rule map_cong[OF refl]) (use hit miss in auto)
    have "concat (map (overlapIssues vs i) [i + 1..<length vs]) = xs"
      unfolding h concat_single_hit using assms(1,2) by simp
    then show ?thesis using True by simp
  next
    case False
    have h: "map (overlapIssues vs p) [p + 1..<length vs] = map (\<lambda>q. []) [p + 1..<length vs]"
      by (rule map_cong[OF refl]) (use False miss in auto)
    show ?thesis unfolding h concat_no_hit using False by simp
  qed
  have h: "map (\<lambda>p. concat (map (overlapIssues vs p) [p + 1..<length vs])) [0..<length vs]
          = map (\<lambda>p. if p = i then xs else []) [0..<length vs]"
    by (rule map_cong[OF refl]) (use inner in auto)
  show ?thesis
    unfolding allOverlapIssues_def h concat_single_hit using assms(1,2) by simp
qed

subsection \<open>Non-manifold edges\<close>

lemma filter_key_distinct:
  assumes "distinct (map fst xs)" "(k, v) \<in> set xs"
  shows "filter (\<lambda>e. fst e = k) xs = [(k, v)]"
  using assms
proof (induction xs)
  case Nil
  then show ?case by simp
next
  case (Cons x xs)
  show ?case
  proof (cases "fst x = k")
    case True
    then have "k \<notin> fst ` set xs" using Cons.prems(1) by auto
    then have "filter (\<lambda>e. fst e = k) xs = []"
      by (auto simp: filter_empty_conv)
    moreover have "x = (k, v)"
      using Cons.prems True \<open>k \<notin> fst ` set xs\<close> by (cases x) force
    ultimately show ?thesis by simp
  next
    case False
    then show ?thesis using Cons by auto
  qed
qed

lemma nonManifoldIssue_edge:
  "elementIndex (nonManifoldIssue entry) = fst edge \<and>
   relatedElements (nonManifoldIssue entry) = [snd edge] \<longleftrightarrow> fst entry = edge"
  by (cases entry; cases edge) (auto simp: nonManifoldIssue_def)

text \<open>
  Claim C5.  On a mesh with valid face indices \<open>analyzeQuality\<close> returns, and for every
  entry of the edge map whose face list has length \<open>n > 2\<close> the report holds exactly one
  Non-Manifold Edge issue for that edge (element index the first endpoint, related
  elements the second), with severity \<open>min 1 ((n - 2) / 4)\<close>, which is 0.25 for \<open>n = 3\<close>;
  the non-manifold edge count grows by one for each such entry.
\<close>

theorem C5_non_manifold_edges:
  assumes "validMesh (mesh a)"
  shows "\<exists>a'. analyzeQuality a = Some a' \<and>
     (\<forall>edge fs. (edge, fs) \<in> set (edgeFaceMap a') \<and> length fs > 2 \<longrightarrow>
        filter (\<lambda>issue. type issue = NON_MANIFOLD_EDGE \<and> elementIndex issue = fst edge \<and>
                         relatedElements issue = [snd edge]) (getIssues a')
          = [\<lparr>type = NON_MANIFOLD_EDGE, elementIndex = fst edge,
               severity = min 1 ((real (length fs) - 2) / 4),
               relatedElements = [snd edge]\<rparr>] \<and>
        (length fs = 3 \<longrightarrow> min 1 ((real (length fs) - 2) / 4) = 0.25)) \<and>
     nonManifoldEdgeCount (getMetrics a') =
       nonManifoldEdgeCount (getMetrics a) +
       length (filter (\<lambda>entry. length (snd entry) > 2) (edgeFaceMap a'))"
proof -
  from analyzeQuality_run[OF assms]
  obtain a' degenerate aspect normals stretch sharp where
    run: "analyzeQuality a = Some a'"
    and bo: "builtOn (a\<lparr>issues := []\<rparr>) (a'\<lparr>issues := [], metrics := metrics a\<rparr>)"
    and iss: "issues a' =
       degenerate @ aspect @ map nonManifoldIssue (nonManifoldEntries (edgeFaceMap a')) @
       concat (map (valenceIssues (vertexConnectivity a')) [0..<length (vertexConnectivity a')]) @
       allOverlapIssues (getVertices (mesh a)) @ normals @ stretch @ sharp"
    and ty: "\<forall>i \<in> set degenerate. type i = DEGENERATE_FACE"
      "\<forall>i \<in> set aspect. type i = HIGH_ASPECT_RATIO"
      "\<forall>i \<in> set normals. type i = INVERTED_NORMAL"
      "\<forall>i \<in> set stretch. type i = TEXTURE_STRETCH"
      "\<forall>i \<in> set sharp. type i = SHARP_ANGLE"
    and nc: "nonManifoldEdgeCount (metrics a') =
       nonManifoldEdgeCount (metrics a) + length (nonManifoldEntries (edgeFaceMap a'))"
    by (elim exE conjE) (rule that; assumption)
  have f: "filter (\<lambda>i. type i = NON_MANIFOLD_EDGE) degenerate = []"
    "filter (\<lambda>i. type i = NON_MANIFOLD_EDGE) aspect = []"
    "filter (\<lambda>i. type i = NON_MANIFOLD_EDGE) normals = []"
    "filter (\<lambda>i. type i = NON_MANIFOLD_EDGE) stretch = []"
    "filter (\<lambda>i. type i = NON_MANIFOLD_EDGE) sharp = []"
    "filter (\<lambda>i. type i = NON_MANIFOLD_EDGE) (allOverlapIssues (getVertices (mesh a))) = []"
    "filter (\<lambda>i. type i = NON_MANIFOLD_EDGE)
       (concat (map (valenceIssues (vertexConnectivity a')) [0..<length (vertexConnectivity a')])) = []"
    using ty type_allOverlapIssues
    by (simp_all add: filter_type_other filter_type_valence filter_empty_conv)
  have nm: "filter (\<lambda>i. type i = NON_MANIFOLD_EDGE) (issues a') =
      map nonManifoldIssue (nonManifoldEntries (edgeFaceMap a'))"
    unfolding iss filter_append f filter_type_nonManifold by simp
  have d: "distinct (map fst (nonManifoldEntries (edgeFaceMap a')))"
  proof -
    have "keysSorted (edgeFaceMap a')" using bo by (simp add: builtOn_def)
    then have "distinct (map fst (edgeFaceMap a'))" by (rule keysSorted_distinct)
    then show ?thesis unfolding nonManifoldEntries_def by (rule distinct_map_filter)
  qed
  have one: "filter (\<lambda>issue. type issue = NON_MANIFOLD_EDGE \<and> elementIndex issue = fst edge \<and>
                         relatedElements issue = [snd edge]) (getIssues a')
          = [\<lparr>type = NON_MANIFOLD_EDGE, elementIndex = fst edge,
               severity = min 1 ((real (length fs) - 2) / 4),
               relatedElements = [snd edge]\<rparr>]"
    if e: "(edge, fs) \<in> set (edgeFaceMap a')" and l: "length fs > 2" for edge fs
  proof -
    have m: "(edge, fs) \<in> set (nonManifoldEntries (edgeFaceMap a'))"
      using e l by (simp add: nonManifoldEntries_def)
    have "filter (\<lambda>issue. type issue = NON_MANIFOLD_EDGE \<and> elementIndex issue = fst edge \<and>
                         relatedElements issue = [snd edge]) (issues a')
        = filter (\<lambda>issue. elementIndex issue = fst edge \<and> relatedElements issue = [snd edge])
            (filter (\<lambda>i. type i = NON_MANIFOLD_EDGE) (issues a'))"
      by (simp add: conj_commute)
    also have "\<dots> = map nonManifoldIssue
        (filter (\<lambda>entry. fst entry = edge) (nonManifoldEntries (edgeFaceMap a')))"
      unfolding nm filter_map by (simp add: comp_def nonManifoldIssue_edge)
    also have "\<dots> = [nonManifoldIssue (edge, fs)]"
      by (simp add: filter_key_distinct[OF d m])
    also have "\<dots> = [\<lparr>type = NON_MANIFOLD_EDGE, elementIndex = fst edge,
               severity = min 1 ((real (length fs) - 2) / 4),
               relatedElements = [snd edge]\<rparr>]"
      using l by (simp add: nonManifoldIssue_def)
    finally show ?thesis by (simp add: getIssues_def)
  qed
  have "nonManifoldEdgeCount (getMetrics a') =
       nonManifoldEdgeCount (getMetrics a) +
       length (filter (\<lambda>entry. length (snd entry) > 2) (edgeFaceMap a'))"
    using nc by (simp add: getMetrics_def nonManifoldEntries_def)
  then show ?thesis using run one by auto
qed

subsection \<open>The running minimum of the dihedral angle\<close>

text \<open>
  Claim C3.  The sharp-angle pass visits the entries of the edge map in key order; the
  entries with exactly two faces each yield a dihedral angle.  The stored minimum after
  the pass is the stored minimum before it, updated with these angles from left to right
  by: replace the stored value by the new angle if and only if the new angle is smaller
  than the stored value or the stored value is below 0.1.  Every dihedral angle is below
  \<open>FLT_MAX\<close>, so an angle met while the minimum is still the initial \<open>FLT_MAX\<close> replaces
  it; and a stored minimum between 0 and 0.1 is replaced by a larger angle that follows.
\<close>

theorem C3_min_dihedral_update:
  assumes "validMesh (mesh a)"
    and "topologyValid (length (getVertices (mesh a))) (length (getFaces (mesh a))) (edgeFaceMap a)"
  shows "\<exists>a' angles.
           checkSharpAngles a = Some a' \<and>
           manifoldAngles (mesh a) (edgeFaceMap a) = Some angles \<and>
           minDihedralAngle (metrics a') =
             foldl (\<lambda>stored angle. if angle < stored \<or> stored < 0.1 then angle else stored)
                   (minDihedralAngle (metrics a)) angles \<and>
           (\<forall>angle \<in> set angles.
              (if angle < FLT_MAX \<or> FLT_MAX < 0.1 then angle else FLT_MAX) = angle) \<and>
           (\<forall>stored angle. 0 < stored \<and> stored < 0.1 \<and> stored < angle \<longrightarrow>
              (if angle < stored \<or> stored < 0.1 then angle else stored) = angle)"
proof -
  obtain a' where s: "checkSharpAngles a = Some a'"
    using checkSharpAngles_post[OF assms] by blast
  obtain angles where an: "manifoldAngles (mesh a) (edgeFaceMap a) = Some angles"
    and mn: "minDihedralAngle (metrics a') =
               foldl spec_minUpdate (minDihedralAngle (metrics a)) angles"
    using for_each_sharp_min s unfolding checkSharpAngles_def by blast
  have "spec_minUpdate = (\<lambda>stored angle. if angle < stored \<or> stored < 0.1 then angle else stored)"
    by (simp add: spec_minUpdate_def fun_eq_iff)
  with mn have mn': "minDihedralAngle (metrics a') =
             foldl (\<lambda>stored angle. if angle < stored \<or> stored < 0.1 then angle else stored)
                   (minDihedralAngle (metrics a)) angles" by simp
  have "\<forall>angle \<in> set angles. angle < FLT_MAX"
    using manifoldAngles_bounds[OF an] by blast
  with s an mn' show ?thesis by auto
qed

subsection \<open>A mesh without faces\<close>

lemma valenceIssues_isolated:
  assumes "i < n"
  shows "valenceIssues (replicate n []) i = []"
  using assms by (simp add: valenceIssues_def HIGH_VALENCE_THRESHOLD_def)

lemma concat_valenceIssues_isolated:
  "concat (map (valenceIssues (replicate n [])) [0..<n]) = []"
  by (simp add: valenceIssues_isolated)

lemma analyzeQuality_no_faces:
  assumes "getFaces (mesh a) = []"
  shows "analyzeQuality a =
           Some (a\<lparr>issues := allOverlapIssues (getVertices (mesh a)), edgeFaceMap := [],
                   vertexConnectivity := replicate (length (getVertices (mesh a))) []\<rparr>)"
proof -
  define a1 where "a1 = a\<lparr>issues := [], edgeFaceMap := [],
      vertexConnectivity := replicate (length (getVertices (mesh a))) []\<rparr>"
  have f: "getFaces (mesh a1) = []" using assms by (simp add: a1_def)
  have b: "buildTopology (a\<lparr>issues := []\<rparr>) = Some a1"
    using assms by (simp add: buildTopology_def a1_def)
  have d: "checkDegenerateFaces a1 = Some a1"
    by (simp add: checkDegenerateFaces_def f)
  have r: "checkAspectRatio a1 = Some a1"
    by (simp add: checkAspectRatio_def f)
  have n: "checkNonManifoldEdges a1 = a1"
    by (simp add: checkNonManifoldEdges_def a1_def)
  have v: "checkVertexValence a1 = a1"
    unfolding checkVertexValence_eq
    by (simp add: a1_def concat_valenceIssues_isolated)
  define a6 where "a6 = checkOverlappingVertices a1"
  have a6: "a6 = a1\<lparr>issues := allOverlapIssues (getVertices (mesh a))\<rparr>"
    unfolding a6_def checkOverlappingVertices_eq by (simp add: a1_def)
  have f6: "getFaces (mesh a6) = []" "edgeFaceMap a6 = []" using assms by (simp_all add: a6 a1_def)
  have nd: "checkNormalDirection a6 = Some a6"
    by (simp add: checkNormalDirection_def f6)
  have uv: "checkUVStretch a6 = Some a6"
    by (simp add: checkUVStretch_def f6)
  have sh: "checkSharpAngles a6 = Some a6"
    by (simp add: checkSharpAngles_def f6)
  have "analyzeQuality a = Some a6"
    unfolding analyzeQuality_def b
    by (simp add: d r n v a6_def[symmetric] nd uv sh calculateOverallMetrics_def)
  then show ?thesis by (simp add: a6 a1_def)
qed

subsection \<open>Overlapping vertices\<close>

lemma overlapLimit_value: "overlapLimit = Finite (5629499 / 2 ^ 49)"
  unfolding overlapLimit_def fmul.simps
  by (rule round32_eval[where e = "- 27" and n = 11258998])
     (simp_all add: OVERLAP_THRESHOLD_def pow2_def round_to_even_def Let_def)

lemma squareSum32_computedDistSq: "squareSum32 (computedDistSq v1 v2)"
  unfolding computedDistSq_def by (rule squareSum32_distSq)

lemma overlapSeverity_finite:
  assumes "flt (computedDistSq v1 v2) overlapLimit"
  shows "\<exists>r. fsub (Finite 1) (fdiv (fsqrt (computedDistSq v1 v2)) (Finite OVERLAP_THRESHOLD))
           = Finite r"
proof -
  obtain d where d: "computedDistSq v1 v2 = Finite d" "0 \<le> d" "d < 5629499 / 2 ^ 49"
    using squareSum32_computedDistSq[of v1 v2] assms
    by (auto simp: squareSum32_def overlapLimit_value)
  have "sqrt d \<le> sqrt 1" using d(3) by (simp only: real_sqrt_le_iff) simp
  then have "0 \<le> sqrt d" "sqrt d \<le> pow2 0" using d(2) by (simp_all add: pow2_def)
  from round32_le_pow2[OF this]
  obtain s where s: "round32 (sqrt d) = Finite s" "0 \<le> s" "s \<le> 1" by (auto simp: pow2_def)
  have t: "0 < OVERLAP_THRESHOLD" by (simp add: OVERLAP_THRESHOLD_def)
  have "s / OVERLAP_THRESHOLD \<le> 1 / OVERLAP_THRESHOLD"
    using s t by (intro divide_right_mono) simp_all
  also have "\<dots> \<le> pow2 14" by (simp add: OVERLAP_THRESHOLD_def pow2_def)
  finally have "s / OVERLAP_THRESHOLD \<le> pow2 14" .
  moreover have "0 \<le> s / OVERLAP_THRESHOLD" using s t by simp
  ultimately obtain q where q: "round32 (s / OVERLAP_THRESHOLD) = Finite q" "0 \<le> q" "q \<le> pow2 14"
    using round32_le_pow2[of "s / OVERLAP_THRESHOLD" 14] by auto
  have "\<bar>1 - q\<bar> \<le> pow2 14" using q by (simp add: pow2_def abs_le_iff)
  then obtain r where "round32 (1 - q) = Finite r"
    using round32_abs_le_pow2[of "1 - q" 14] by auto
  then show ?thesis using d s q t by simp
qed

lemma computedDistSq_eval:
  assumes "round32 (pos_x v2 - pos_x v1) = Finite dx"
    and "round32 (pos_y v2 - pos_y v1) = Finite dy"
    and "round32 (pos_z v2 - pos_z v1) = Finite dz"
    and "round32 (dx * dx) = Finite xx" and "round32 (dy * dy) = Finite yy"
    and "round32 (dz * dz) = Finite zz"
    and "round32 (xx + yy) = Finite s" and "round32 (s + zz) = Finite d"
  shows "computedDistSq v1 v2 = Finite d"
  by (simp add: computedDistSq_def assms)

lemma computedDistSq_coincident:
  assumes "position v1 = position v2"
  shows "computedDistSq v1 v2 = Finite 0"
  using assms by (simp add: computedDistSq_def position_def)

lemma overlapIssues_coincident:
  assumes "position (vs ! i) = position (vs ! j)"
  shows "overlapIssues vs i j =
           [\<lparr>type = OVERLAPPING_VERTICES, elementIndex = i, severity = 1, relatedElements = [j]\<rparr>]"
  by (simp add: overlapIssues_def computedDistSq_coincident[OF assms] overlapLimit_value
      OVERLAP_THRESHOLD_def)

lemma overlapIssues_far:
  assumes "\<not> flt (computedDistSq (vs ! p) (vs ! q)) overlapLimit"
  shows "overlapIssues vs p q = []"
  using assms by (simp add: overlapIssues_def)

lemma allOverlapIssues_empty_iff:
  "allOverlapIssues vs = [] \<longleftrightarrow>
     (\<forall>i j. i < j \<and> j < length vs \<longrightarrow> \<not> flt (computedDistSq (vs ! i) (vs ! j)) overlapLimit)"
proof -
  have o: "overlapIssues vs i j = [] \<longleftrightarrow> \<not> flt (computedDistSq (vs ! i) (vs ! j)) overlapLimit"
    for i j
    by (simp add: overlapIssues_def)
  have "allOverlapIssues vs = [] \<longleftrightarrow>
      (\<forall>i \<in> set [0..<length vs]. \<forall>j \<in> set [i + 1..<length vs]. overlapIssues vs i j = [])"
    unfolding allOverlapIssues_def by auto
  also have "\<dots> \<longleftrightarrow> (\<forall>i j. i < j \<and> j < length vs \<longrightarrow> overlapIssues vs i j = [])"
    by auto
  finally show ?thesis unfolding o .
qed

lemma near_steps:
  "round32 (8532993 / 2 ^ 38 - - (1 / 2 ^ 15)) = Finite (16525 / 2 ^ 28)"
  "round32 (8450037 / 2 ^ 38 - - (1 / 2 ^ 15)) = Finite (4209661 / 2 ^ 36)"
  "round32 (13627109 / 2 ^ 38 - 0) = Finite (13627109 / 2 ^ 38)"
  "round32 (16525 / 2 ^ 28 * (16525 / 2 ^ 28)) = Finite (8533613 / 2 ^ 51)"
  "round32 (4209661 / 2 ^ 36 * (4209661 / 2 ^ 36)) = Finite (2112537 / 2 ^ 49)"
  "round32 (13627109 / 2 ^ 38 * (13627109 / 2 ^ 38)) = Finite (11068469 / 2 ^ 52)"
  "round32 (8533613 / 2 ^ 51 + 2112537 / 2 ^ 49) = Finite (1061485 / 2 ^ 47)"
  "round32 (1061485 / 2 ^ 47 + 11068469 / 2 ^ 52) = Finite (11258997 / 2 ^ 50)"
proof -
  show "round32 (8532993 / 2 ^ 38 - - (1 / 2 ^ 15)) = Finite (16525 / 2 ^ 28)"
    by (rule round32_eval[where e = "- 14" and n = 8460800])
       (simp_all add: pow2_def round_to_even_def Let_def)
  show "round32 (8450037 / 2 ^ 38 - - (1 / 2 ^ 15)) = Finite (4209661 / 2 ^ 36)"
    by (rule round32_eval[where e = "- 14" and n = 8419322])
       (simp_all add: pow2_def round_to_even_def Let_def)
  show "round32 (13627109 / 2 ^ 38 - 0) = Finite (13627109 / 2 ^ 38)"
    by (rule round32_eval[where e = "- 15" and n = 13627109])
       (simp_all add: pow2_def round_to_even_def Let_def)
  show "round32 (16525 / 2 ^ 28 * (16525 / 2 ^ 28)) = Finite (8533613 / 2 ^ 51)"
    by (rule round32_eval[where e = "- 28" and n = 8533613])
       (simp_all add: pow2_def round_to_even_def Let_def)
  show "round32 (4209661 / 2 ^ 36 * (4209661 / 2 ^ 36)) = Finite (2112537 / 2 ^ 49)"
    by (rule round32_eval[where e = "- 28" and n = 8450148])
       (simp_all add: pow2_def round_to_even_def Let_def)
  show "round32 (13627109 / 2 ^ 38 * (13627109 / 2 ^ 38)) = Finite (11068469 / 2 ^ 52)"
    by (rule round32_eval[where e = "- 29" and n = 11068469])
       (simp_all add: pow2_def round_to_even_def Let_def)
  show "round32 (8533613 / 2 ^ 51 + 2112537 / 2 ^ 49) = Finite (1061485 / 2 ^ 47)"
    by (rule round32_eval[where e = "- 27" and n = 8491880])
       (simp_all add: pow2_def round_to_even_def Let_def)
  show "round32 (1061485 / 2 ^ 47 + 11068469 / 2 ^ 52) = Finite (11258997 / 2 ^ 50)"
    by (rule round32_eval[where e = "- 27" and n = 11258997])
       (simp_all add: pow2_def round_to_even_def Let_def)
qed

lemma near_distSq:
  "computedDistSq (vertexAt (- (1 / 2 ^ 15)) (- (1 / 2 ^ 15)) 0)
     (vertexAt (8532993 / 2 ^ 38) (8450037 / 2 ^ 38) (13627109 / 2 ^ 38))
   = Finite (11258997 / 2 ^ 50)"
  by (rule computedDistSq_eval[OF _ _ _ near_steps(4-8)])
     (simp_all only: vertexAt_def Vertex.simps near_steps(1-3))

text \<open>
  Claim C2, as amended.  For a mesh without faces, one call of \<open>analyzeQuality\<close> on a fresh
  analyzer returns; every metrics field keeps its initial value (the minima \<open>FLT_MAX\<close>, the
  maxima, averages, counts and the UV stretch factor 0); and the issue list holds exactly
  the Overlapping Vertices issues of the pairs of vertices whose squared distance, computed
  in binary32 arithmetic, is below the binary32 product \<open>1e-4f * 1e-4f\<close>, in the order of the
  pairs.  It is empty if and only if there is no such pair, so it depends on the vertices.
\<close>

theorem C2_no_faces:
  assumes "getFaces m = []"
  shows "\<exists>a'. analyzeQuality (MeshQualityAnalyzer m threshold) = Some a' \<and>
           getMetrics a' =
             \<lparr> minFaceArea = FLT_MAX, maxFaceArea = 0, avgFaceArea = 0,
               minAspectRatio = FLT_MAX, maxAspectRatio = 0, avgAspectRatio = 0,
               minDihedralAngle = FLT_MAX, maxDihedralAngle = 0,
               nonManifoldEdgeCount = 0, degenerateFaceCount = 0, uvStretchFactor = 0 \<rparr> \<and>
           getIssues a' = allOverlapIssues (getVertices m) \<and>
           (\<forall>issue \<in> set (getIssues a'). type issue = OVERLAPPING_VERTICES) \<and>
           (getIssues a' = [] \<longleftrightarrow>
              (\<forall>i j. i < j \<and> j < length (getVertices m) \<longrightarrow>
                 \<not> flt (computedDistSq (getVertices m ! i) (getVertices m ! j))
                        (fmul (Finite OVERLAP_THRESHOLD) (Finite OVERLAP_THRESHOLD))))"
proof -
  define a where "a = MeshQualityAnalyzer m threshold"
  have ma: "mesh a = m" "metrics a = initialMetrics" by (simp_all add: a_def MeshQualityAnalyzer_def)
  define a' where "a' = a\<lparr>issues := allOverlapIssues (getVertices (mesh a)), edgeFaceMap := [],
                   vertexConnectivity := replicate (length (getVertices (mesh a))) []\<rparr>"
  have run: "analyzeQuality a = Some a'"
    unfolding a'_def by (rule analyzeQuality_no_faces) (simp add: ma assms)
  have i: "getIssues a' = allOverlapIssues (getVertices m)"
    by (simp add: a'_def getIssues_def ma)
  have mt: "getMetrics a' = initialMetrics"
    by (simp add: a'_def getMetrics_def ma)
  have e: "getIssues a' = [] \<longleftrightarrow>
              (\<forall>i j. i < j \<and> j < length (getVertices m) \<longrightarrow>
                 \<not> flt (computedDistSq (getVertices m ! i) (getVertices m ! j))
                        (fmul (Finite OVERLAP_THRESHOLD) (Finite OVERLAP_THRESHOLD)))"
    unfolding i allOverlapIssues_empty_iff overlapLimit_def ..
  show ?thesis
    unfolding a_def[symmetric]
    using run i mt e type_allOverlapIssues
    by (intro exI[of _ a']) (simp add: initialMetrics_def)
qed

text \<open>
  The claim C2 as stated, that the issue list of a mesh without faces is empty however many
  vertices it has, fails on two vertices at the same position: the overlap pass looks at
  the vertices only.
\<close>

theorem C2_issue_list_counterexample:
  "getFaces coincidentPair = [] \<and>
   map_option getIssues (analyzeQuality (MeshQualityAnalyzer coincidentPair (1 / 2))) =
     Some [\<lparr>type = OVERLAPPING_VERTICES, elementIndex = 0, severity = 1, relatedElements = [1]\<rparr>]"
proof -
  have f: "getFaces (mesh (MeshQualityAnalyzer coincidentPair (1 / 2))) = []"
    by (simp add: MeshQualityAnalyzer_def coincidentPair_def)
  have "overlapIssues (getVertices coincidentPair) 0 1 =
     [\<lparr>type = OVERLAPPING_VERTICES, elementIndex = 0, severity = 1, relatedElements = [1]\<rparr>]"
    by (rule overlapIssues_coincident) (simp add: coincidentPair_def)
  then have "allOverlapIssues (getVertices coincidentPair) =
     [\<lparr>type = OVERLAPPING_VERTICES, elementIndex = 0, severity = 1, relatedElements = [1]\<rparr>]"
    by (simp add: allOverlapIssues_def coincidentPair_def upt_2)
  then show ?thesis
    unfolding analyzeQuality_no_faces[OF f]
    by (simp add: getIssues_def MeshQualityAnalyzer_def coincidentPair_def)
qed

theorem C2_no_faces_witness:
  "getFaces coincidentPair = [] \<and>
   (\<exists>a'. analyzeQuality (MeshQualityAnalyzer coincidentPair (1 / 2)) = Some a' \<and>
           getMetrics a' =
             \<lparr> minFaceArea = FLT_MAX, maxFaceArea = 0, avgFaceArea = 0,
               minAspectRatio = FLT_MAX, maxAspectRatio = 0, avgAspectRatio = 0,
               minDihedralAngle = FLT_MAX, maxDihedralAngle = 0,
               nonManifoldEdgeCount = 0, degenerateFaceCount = 0, uvStretchFactor = 0 \<rparr> \<and>
           getIssues a' = allOverlapIssues (getVertices coincidentPair) \<and>
           (\<forall>issue \<in> set (getIssues a'). type issue = OVERLAPPING_VERTICES))"
proof -
  have h: "getFaces coincidentPair = []" by (simp add: coincidentPair_def)
  show ?thesis using h C2_no_faces[OF h, of "1 / 2"] by blast
qed

text \<open>
  Claim C4, as amended.  Let the vertices \<open>i < j\<close> of a mesh with valid face indices lie at the
  same position, and let the squared distance of every other pair of vertices, as the pass
  computes it in binary32 arithmetic, be not below the binary32 product \<open>1e-4f * 1e-4f\<close>.
  Then \<open>analyzeQuality\<close> returns, and the Overlapping Vertices issues of its report are
  exactly one issue, with severity 1.0, element index \<open>i\<close> and related elements \<open>[j]\<close>.
\<close>

theorem C4_overlapping_pair:
  assumes "validMesh (mesh a)"
    and "i < j" and "j < length (getVertices (mesh a))"
    and "position (getVertices (mesh a) ! i) = position (getVertices (mesh a) ! j)"
    and "\<forall>p q. p < q \<and> q < length (getVertices (mesh a)) \<and> (p, q) \<noteq> (i, j) \<longrightarrow>
           \<not> flt (computedDistSq (getVertices (mesh a) ! p) (getVertices (mesh a) ! q))
                  (fmul (Finite OVERLAP_THRESHOLD) (Finite OVERLAP_THRESHOLD))"
  shows "\<exists>a'. analyzeQuality a = Some a' \<and>
           getIssuesByType a' OVERLAPPING_VERTICES =
             [\<lparr>type = OVERLAPPING_VERTICES, elementIndex = i, severity = 1.0,
               relatedElements = [j]\<rparr>]"
proof -
  define vs where "vs = getVertices (mesh a)"
  define issue where "issue =
    \<lparr>type = OVERLAPPING_VERTICES, elementIndex = i, severity = 1, relatedElements = [j]\<rparr>"
  have all: "allOverlapIssues vs = [issue]"
  proof (rule allOverlapIssues_single[OF assms(2)])
    show "j < length vs" using assms(3) by (simp add: vs_def)
    show "overlapIssues vs i j = [issue]"
      unfolding issue_def by (rule overlapIssues_coincident) (use assms(4) in \<open>simp add: vs_def\<close>)
  next
    fix p q
    assume "p < q" "q < length vs" "(p, q) \<noteq> (i, j)"
    then have "\<not> flt (computedDistSq (vs ! p) (vs ! q)) overlapLimit"
      using assms(5) by (simp add: vs_def overlapLimit_def)
    then show "overlapIssues vs p q = []" by (rule overlapIssues_far)
  qed
  from analyzeQuality_run[OF assms(1)]
  obtain a' degenerate aspect normals stretch sharp where
    run: "analyzeQuality a = Some a'"
    and iss: "issues a' =
       degenerate @ aspect @ map nonManifoldIssue (nonManifoldEntries (edgeFaceMap a')) @
       concat (map (valenceIssues (vertexConnectivity a')) [0..<length (vertexConnectivity a')]) @
       allOverlapIssues (getVertices (mesh a)) @ normals @ stretch @ sharp"
    and ty: "\<forall>i \<in> set degenerate. type i = DEGENERATE_FACE"
      "\<forall>i \<in> set aspect. type i = HIGH_ASPECT_RATIO"
      "\<forall>i \<in> set normals. type i = INVERTED_NORMAL"
      "\<forall>i \<in> set stretch. type i = TEXTURE_STRETCH"
      "\<forall>i \<in> set sharp. type i = SHARP_ANGLE"
    by (elim exE conjE) (rule that; assumption)
  have f: "filter (\<lambda>i. type i = OVERLAPPING_VERTICES) degenerate = []"
    "filter (\<lambda>i. type i = OVERLAPPING_VERTICES) aspect = []"
    "filter (\<lambda>i. type i = OVERLAPPING_VERTICES) normals = []"
    "filter (\<lambda>i. type i = OVERLAPPING_VERTICES) stretch = []"
    "filter (\<lambda>i. type i = OVERLAPPING_VERTICES) sharp = []"
    "filter (\<lambda>i. type i = OVERLAPPING_VERTICES)
       (map nonManifoldIssue (nonManifoldEntries (edgeFaceMap a'))) = []"
    "filter (\<lambda>i. type i = OVERLAPPING_VERTICES)
       (concat (map (valenceIssues (vertexConnectivity a')) [0..<length (vertexConnectivity a')])) = []"
    using ty by (simp_all add: filter_type_other filter_type_valence filter_empty_conv)
  have "filter (\<lambda>i. type i = OVERLAPPING_VERTICES) (issues a') = allOverlapIssues vs"
    unfolding iss vs_def filter_append f filter_type_overlap by simp
  then have "getIssuesByType a' OVERLAPPING_VERTICES = [issue]"
    by (simp add: getIssuesByType_def fold_push_back_filter all)
  then show ?thesis using run by (simp add: issue_def)
qed

text \<open>
  The claim C4 as stated, with every other pair of vertices farther apart than \<open>1e-4\<close>, fails
  on \<open>nearMesh\<close>: its vertices 0 and 1 coincide, and vertex 2 lies farther than \<open>1e-4\<close> from
  both, but the three differences, their squares and the two sums are each rounded, to the
  squared distance \<open>11258997 / 2^50\<close>, which is below the product \<open>11258998 / 2^50\<close>.  The
  report has three Overlapping Vertices issues.
\<close>

theorem C4_rounding_counterexample:
  "getFaces nearMesh = [] \<and> length (getVertices nearMesh) = 3 \<and>
   position (getVertices nearMesh ! 0) = position (getVertices nearMesh ! 1) \<and>
   1 / 10 ^ 4 < sqrt (distanceSquared (getVertices nearMesh ! 0) (getVertices nearMesh ! 2)) \<and>
   1 / 10 ^ 4 < sqrt (distanceSquared (getVertices nearMesh ! 1) (getVertices nearMesh ! 2)) \<and>
   computedDistSq (getVertices nearMesh ! 0) (getVertices nearMesh ! 2)
     = Finite (11258997 / 2 ^ 50) \<and>
   fmul (Finite OVERLAP_THRESHOLD) (Finite OVERLAP_THRESHOLD) = Finite (11258998 / 2 ^ 50) \<and>
   map_option (map type) (map_option getIssues
       (analyzeQuality (MeshQualityAnalyzer nearMesh (1 / 2)))) =
     Some [OVERLAPPING_VERTICES, OVERLAPPING_VERTICES, OVERLAPPING_VERTICES] \<and>
   map_option (map elementIndex) (map_option getIssues
       (analyzeQuality (MeshQualityAnalyzer nearMesh (1 / 2)))) = Some [0, 0, 1] \<and>
   map_option (map relatedElements) (map_option getIssues
       (analyzeQuality (MeshQualityAnalyzer nearMesh (1 / 2)))) = Some [[1], [2], [2]]"
proof -
  define v0 where "v0 = vertexAt (- (1 / 2 ^ 15)) (- (1 / 2 ^ 15)) 0"
  define v2 where "v2 = vertexAt (8532993 / 2 ^ 38) (8450037 / 2 ^ 38) (13627109 / 2 ^ 38)"
  have vs: "getVertices nearMesh = [v0, v0, v2]" and fs: "getFaces nearMesh = []"
    by (simp_all add: nearMesh_def v0_def v2_def)
  have f: "getFaces (mesh (MeshQualityAnalyzer nearMesh (1 / 2))) = []"
    by (simp add: MeshQualityAnalyzer_def fs)
  have d: "computedDistSq v0 v2 = Finite (11258997 / 2 ^ 50)"
    unfolding v0_def v2_def by (rule near_distSq)
  have l: "overlapLimit = Finite (11258998 / 2 ^ 50)" by (simp add: overlapLimit_value)
  have far: "1 / 10 ^ 4 < sqrt (distanceSquared v0 v2)"
  proof -
    have "(1 / 10 ^ 4) ^ 2 < distanceSquared v0 v2"
      by (simp add: distanceSquared_def v0_def v2_def vertexAt_def power2_eq_square)
    then have "sqrt ((1 / 10 ^ 4) ^ 2) < sqrt (distanceSquared v0 v2)"
      by (simp only: real_sqrt_less_iff)
    then show ?thesis by simp
  qed
  have o1: "overlapIssues [v0, v0, v2] 0 1 =
      [\<lparr>type = OVERLAPPING_VERTICES, elementIndex = 0, severity = 1, relatedElements = [1]\<rparr>]"
    by (rule overlapIssues_coincident) simp
  define sev where "sev = valof (fsub (Finite 1)
      (fdiv (fsqrt (computedDistSq v0 v2)) (Finite OVERLAP_THRESHOLD)))"
  have o2: "overlapIssues [v0, v0, v2] 0 2 =
      [\<lparr>type = OVERLAPPING_VERTICES, elementIndex = 0, severity = sev, relatedElements = [2]\<rparr>]"
    "overlapIssues [v0, v0, v2] 1 2 =
      [\<lparr>type = OVERLAPPING_VERTICES, elementIndex = 1, severity = sev, relatedElements = [2]\<rparr>]"
    unfolding overlapIssues_def sev_def by (simp_all add: d l)
  have all: "allOverlapIssues [v0, v0, v2] =
      [\<lparr>type = OVERLAPPING_VERTICES, elementIndex = 0, severity = 1, relatedElements = [1]\<rparr>,
       \<lparr>type = OVERLAPPING_VERTICES, elementIndex = 0, severity = sev, relatedElements = [2]\<rparr>,
       \<lparr>type = OVERLAPPING_VERTICES, elementIndex = 1, severity = sev, relatedElements = [2]\<rparr>]"
    unfolding allOverlapIssues_def
    by (simp add: upt_3 upt_2 upt_1 o1[unfolded One_nat_def]
        o2[unfolded numeral_2_eq_2 One_nat_def])
  have run: "map_option getIssues (analyzeQuality (MeshQualityAnalyzer nearMesh (1 / 2))) =
      Some (allOverlapIssues [v0, v0, v2])"
    unfolding analyzeQuality_no_faces[OF f]
    by (simp add: getIssues_def MeshQualityAnalyzer_def vs)
  show ?thesis
    unfolding run all using fs far d l by (simp add: vs overlapLimit_def)
qed

subsection \<open>Running the analysis twice\<close>

lemma collinear_valid: "validMesh collinearMesh"
  by (simp add: validMesh_def collinearMesh_def triangleFace_def)

lemma collinear_degenerate:
  assumes "mesh a = collinearMesh"
  shows "\<exists>a'. checkDegenerateFaces a = Some a' \<and> length (issues a') = length (issues a) + 1"
proof -
  have ar: "calculateTriangleArea collinearMesh 0 1 2 = Some 0"
    by (simp add: calculateTriangleArea_def collinearMesh_def vertexAt_def)
  have st: "degenerateFaceStep collinearMesh 0 (0, FLT_MAX, 0, a) =
      Some (0, 0, 0,
        a\<lparr>issues := issues a @
             [\<lparr>type = DEGENERATE_FACE, elementIndex = 0, severity = 1,
               relatedElements = [0, 1, 2]\<rparr>],
           metrics := (metrics a)\<lparr>degenerateFaceCount := degenerateFaceCount (metrics a) + 1\<rparr>\<rparr>)"
  proof -
    have l: "\<not> length (vertexIndices (getFaces collinearMesh ! 0)) < 3"
      by (simp add: collinearMesh_def triangleFace_def)
    have ix: "vertexIndices (getFaces collinearMesh ! 0) = [0, 1, 2]"
      by (simp add: collinearMesh_def triangleFace_def)
    have ar': "calculateTriangleArea collinearMesh (vertexIndices (getFaces collinearMesh ! 0) ! 0)
           (vertexIndices (getFaces collinearMesh ! 0) ! 1)
           (vertexIndices (getFaces collinearMesh ! 0) ! 2) = Some 0"
      unfolding ix using ar by simp
    have "(0::real) < FLT_MAX" by (simp add: FLT_MAX_def)
    then show ?thesis
      unfolding degenerateFaceStep_area[OF l ar'] ix
      by (simp add: DEGENERATE_THRESHOLD_def min_def)
  qed
  have len: "length (getFaces collinearMesh) = 1" by (simp add: collinearMesh_def)
  have "\<exists>a'. checkDegenerateFaces a = Some a' \<and> issues a' = issues a @
             [\<lparr>type = DEGENERATE_FACE, elementIndex = 0, severity = 1,
               relatedElements = [0, 1, 2]\<rparr>]"
    unfolding checkDegenerateFaces_def assms Let_def len upt_1
    by (simp add: st)
  then show ?thesis by auto
qed

text \<open>
  Claim C1.  \<open>analyzeQuality\<close> clears the issue list and rebuilds the topology, and assigns
  the area, aspect-ratio and UV metrics anew, but it increments \<open>degenerateFaceCount\<close> (and
  \<open>nonManifoldEdgeCount\<close>) without resetting them.  On the mesh of one face whose three
  vertices are collinear, the degenerate face count is 1 after the first run and 2 after
  the second run on the unmodified mesh: the two metrics records differ.
\<close>

theorem C1_counts_accumulate:
  "\<exists>a1 a2. analyzeQuality (MeshQualityAnalyzer collinearMesh (1 / 2)) = Some a1 \<and>
           analyzeQuality a1 = Some a2 \<and>
           degenerateFaceCount (getMetrics a1) = 1 \<and>
           degenerateFaceCount (getMetrics a2) = 2 \<and>
           getMetrics a2 \<noteq> getMetrics a1"
proof -
  define a0 where "a0 = MeshQualityAnalyzer collinearMesh (1 / 2)"
  have m0: "mesh a0 = collinearMesh" "degenerateFaceCount (metrics a0) = 0"
    by (simp_all add: a0_def MeshQualityAnalyzer_def initialMetrics_def)
  have once: "\<exists>a'. analyzeQuality a = Some a' \<and> mesh a' = collinearMesh \<and>
      degenerateFaceCount (metrics a') = degenerateFaceCount (metrics a) + 1"
    if ma: "mesh a = collinearMesh" for a
  proof -
    have v: "validMesh (mesh a)" using ma collinear_valid by simp
    from analyzeQuality_run[OF v]
    obtain a' degenerate a1 a2 where
      run: "analyzeQuality a = Some a'" and me: "mesh a' = mesh a"
      and dc: "degenerateFaceCount (metrics a') = degenerateFaceCount (metrics a) + length degenerate"
      and m1: "mesh a1 = mesh a" and i1: "issues a1 = []"
      and d: "checkDegenerateFaces a1 = Some a2" and i2: "issues a2 = degenerate"
      by (elim exE conjE) (rule that; assumption)
    from collinear_degenerate[of a1] m1 ma d i1 i2 have "length degenerate = 1" by auto
    then show ?thesis using run me ma dc by simp
  qed
  from once[OF m0(1)] obtain a1 where r1: "analyzeQuality a0 = Some a1"
    and m1: "mesh a1 = collinearMesh" and c1: "degenerateFaceCount (metrics a1) = 1"
    using m0(2) by auto
  from once[OF m1] obtain a2 where r2: "analyzeQuality a1 = Some a2"
    and c2: "degenerateFaceCount (metrics a2) = 2"
    using c1 by auto
  have "getMetrics a2 \<noteq> getMetrics a1"
    using c1 c2 by (auto simp: getMetrics_def)
  then show ?thesis
    using r1 r2 c1 c2 unfolding a0_def getMetrics_def by blast
qed

subsection \<open>A face with two vertices\<close>

lemma topologyFace_two_vertices:
  assumes "vertexIndices (faces ! faceIdx) = [va, vb]"
    and "va < length (vertexConnectivity a)" "vb < length (vertexConnectivity a)"
  shows "\<exists>c. topologyFace faces faceIdx a =
           Some (a\<lparr>edgeFaceMap :=
                     map_push_back (min va vb, max va vb) faceIdx
                       (map_push_back (min va vb, max va vb) faceIdx (edgeFaceMap a)),
                   vertexConnectivity := c\<rparr>) \<and>
           length c = length (vertexConnectivity a)"
proof -
  define key where "key = (min va vb, max va vb)"
  have k0: "(min ([va, vb] ! 0) ([va, vb] ! ((0 + 1) mod length [va, vb])),
             max ([va, vb] ! 0) ([va, vb] ! ((0 + 1) mod length [va, vb]))) = key"
    by (simp add: key_def)
  have k1: "(min ([va, vb] ! 1) ([va, vb] ! ((1 + 1) mod length [va, vb])),
             max ([va, vb] ! 1) ([va, vb] ! ((1 + 1) mod length [va, vb]))) = key"
    by (simp add: key_def min.commute max.commute)
  obtain c1 where s1: "topologyEdge faceIdx [va, vb] 0 a =
      Some (a\<lparr>edgeFaceMap := map_push_back key faceIdx (edgeFaceMap a),
              vertexConnectivity := c1\<rparr>)"
    and l1: "length c1 = length (vertexConnectivity a)"
    using topologyEdge_Some[of "[va, vb]" 0 a faceIdx] assms(2,3) unfolding k0 by auto
  define a1 where "a1 = a\<lparr>edgeFaceMap := map_push_back key faceIdx (edgeFaceMap a),
              vertexConnectivity := c1\<rparr>"
  have v1: "[va, vb] ! 1 < length (vertexConnectivity a1)"
    "[va, vb] ! ((1 + 1) mod length [va, vb]) < length (vertexConnectivity a1)"
    using assms(2,3) l1 by (simp_all add: a1_def)
  obtain c2 where s2: "topologyEdge faceIdx [va, vb] 1 a1 =
      Some (a1\<lparr>edgeFaceMap := map_push_back key faceIdx (edgeFaceMap a1),
              vertexConnectivity := c2\<rparr>)"
    and l2: "length c2 = length (vertexConnectivity a1)"
    using topologyEdge_Some[OF v1, of faceIdx] unfolding k1 by auto
  have "topologyFace faces faceIdx a =
      Some (a1\<lparr>edgeFaceMap := map_push_back key faceIdx (edgeFaceMap a1),
              vertexConnectivity := c2\<rparr>)"
    unfolding topologyFace_def assms(1) Let_def
    using s1 s2 by (simp add: upt_2 a1_def[symmetric])
  then have "topologyFace faces faceIdx a =
      Some (a\<lparr>edgeFaceMap := map_push_back key faceIdx (map_push_back key faceIdx (edgeFaceMap a)),
              vertexConnectivity := c2\<rparr>)"
    by (simp add: a1_def)
  moreover have "length c2 = length (vertexConnectivity a)"
    using l1 l2 by (simp add: a1_def)
  ultimately show ?thesis
    unfolding key_def[symmetric] by blast
qed

lemma single_entry_sharp:
  fixes a :: Analyzer
  assumes "edgeFaceMap a = [(edge, [f1, f2])]"
    and "calculateDihedralAngle (mesh a) f1 f2 (fst edge) (snd edge) = Some angle"
    and "minDihedralAngle (metrics a) = FLT_MAX" "maxDihedralAngle (metrics a) = 0"
    and "checkSharpAngles a = Some a'"
  shows "minDihedralAngle (metrics a') = angle \<and> maxDihedralAngle (metrics a') = angle"
proof -
  have l: "length [f1, f2] = 2" by simp
  have c: "calculateDihedralAngle (mesh a) ([f1, f2] ! 0) ([f1, f2] ! 1) (fst edge) (snd edge)
      = Some angle"
    using assms(2) by simp
  have b: "0 \<le> angle" "angle < FLT_MAX"
    using dihedral_bounds[OF assms(2)] by simp_all
  have "sharpAngleStep (mesh a) (edge, [f1, f2]) a = Some a'"
    using assms(5) unfolding checkSharpAngles_def assms(1) by (simp split: option.splits)
  then show ?thesis
    unfolding sharpAngleStep_manifold[OF l c] using b assms(3,4)
    by (auto simp: Let_def)
qed

text \<open>
  Claim C10.  Let a face have exactly the two vertex indices \<open>va \<noteq> vb\<close>, both valid.  The
  topology builder's walk over this face appends the face's index twice to the face list
  of the edge \<open>(min va vb, max va vb)\<close> and leaves every other entry as it was.  On a mesh
  whose only face it is, the edge map after \<open>analyzeQuality\<close> is that one edge with the
  face list \<open>[0, 0]\<close>, of length 2: the sharp-angle pass takes it for a manifold edge and
  the dihedral angle it records, as minimum and as maximum, is that of face 0 with face 0.
\<close>

theorem C10_two_vertex_face:
  assumes "vertexIndices face = [va, vb]" and "va \<noteq> vb"
    and "va < length (getVertices m)" and "vb < length (getVertices m)"
  shows "(\<forall>faces faceIdx (a::Analyzer).
            faces ! faceIdx = face \<and>
            length (vertexConnectivity a) = length (getVertices m) \<and>
            keysSorted (edgeFaceMap a) \<longrightarrow>
            (\<exists>a'. topologyFace faces faceIdx a = Some a' \<and>
                   map_of (edgeFaceMap a') (min va vb, max va vb) =
                     Some ((case map_of (edgeFaceMap a) (min va vb, max va vb) of
                              None \<Rightarrow> [] | Some fs \<Rightarrow> fs) @ [faceIdx, faceIdx]) \<and>
                   (\<forall>k. k \<noteq> (min va vb, max va vb) \<longrightarrow>
                      map_of (edgeFaceMap a') k = map_of (edgeFaceMap a) k))) \<and>
         (getFaces m = [face] \<longrightarrow>
            (\<exists>a' angle.
               analyzeQuality (MeshQualityAnalyzer m threshold) = Some a' \<and>
               edgeFaceMap a' = [((min va vb, max va vb), [0, 0])] \<and>
               calculateDihedralAngle m 0 0 (min va vb) (max va vb) = Some angle \<and>
               minDihedralAngle (getMetrics a') = angle \<and>
               maxDihedralAngle (getMetrics a') = angle))"
proof (intro conjI allI impI)
  fix faces faceIdx and a :: Analyzer
  assume h: "faces ! faceIdx = face \<and>
            length (vertexConnectivity a) = length (getVertices m) \<and>
            keysSorted (edgeFaceMap a)"
  define key where "key = (min va vb, max va vb)"
  have vi: "vertexIndices (faces ! faceIdx) = [va, vb]" using h assms(1) by simp
  have r: "va < length (vertexConnectivity a)" "vb < length (vertexConnectivity a)"
    using h assms(3,4) by simp_all
  obtain c where t: "topologyFace faces faceIdx a =
           Some (a\<lparr>edgeFaceMap := map_push_back key faceIdx
                       (map_push_back key faceIdx (edgeFaceMap a)),
                   vertexConnectivity := c\<rparr>)"
    using topologyFace_two_vertices[OF vi r] unfolding key_def by blast
  have s0: "keysSorted (edgeFaceMap a)" using h by simp
  have s1: "keysSorted (map_push_back key faceIdx (edgeFaceMap a))"
    by (rule keysSorted_map_push_back[OF s0])
  have m2: "map_of (map_push_back key faceIdx (map_push_back key faceIdx (edgeFaceMap a))) =
      (map_of (edgeFaceMap a))
        (key \<mapsto> (case map_of (edgeFaceMap a) key of None \<Rightarrow> [] | Some fs \<Rightarrow> fs)
                  @ [faceIdx, faceIdx])"
    unfolding map_of_map_push_back[OF s1] map_of_map_push_back[OF s0] by simp
  show "\<exists>a'. topologyFace faces faceIdx a = Some a' \<and>
                   map_of (edgeFaceMap a') (min va vb, max va vb) =
                     Some ((case map_of (edgeFaceMap a) (min va vb, max va vb) of
                              None \<Rightarrow> [] | Some fs \<Rightarrow> fs) @ [faceIdx, faceIdx]) \<and>
                   (\<forall>k. k \<noteq> (min va vb, max va vb) \<longrightarrow>
                      map_of (edgeFaceMap a') k = map_of (edgeFaceMap a) k)"
    unfolding key_def[symmetric] t by (simp add: m2)
next
  assume f: "getFaces m = [face]"
  define key where "key = (min va vb, max va vb)"
  define a where "a = MeshQualityAnalyzer m threshold"
  have ma: "mesh a = m" "metrics a = initialMetrics"
    by (simp_all add: a_def MeshQualityAnalyzer_def)
  have v: "validMesh (mesh a)"
    using assms(1,3,4) f by (simp add: validMesh_def ma)
  define a0 where "a0 = a\<lparr>issues := [], edgeFaceMap := [],
      vertexConnectivity := replicate (length (getVertices m)) []\<rparr>"
  have vi: "vertexIndices ([face] ! 0) = [va, vb]" using assms(1) by simp
  obtain c where t: "topologyFace [face] 0 a0 =
           Some (a0\<lparr>edgeFaceMap := map_push_back key 0 (map_push_back key 0 (edgeFaceMap a0)),
                   vertexConnectivity := c\<rparr>)"
    using topologyFace_two_vertices[OF vi, of a0] assms(3,4) unfolding key_def
    by (auto simp: a0_def)
  have bt: "buildTopology (a\<lparr>issues := []\<rparr>) =
      Some (a0\<lparr>edgeFaceMap := [(key, [0, 0])], vertexConnectivity := c\<rparr>)"
    unfolding buildTopology_def Let_def
    by (simp add: ma f upt_1 a0_def[symmetric] t) (simp add: a0_def)
  from analyzeQuality_run[OF v]
  obtain a' a1 a8 where
    run: "analyzeQuality a = Some a'"
    and b1: "buildTopology (a\<lparr>issues := []\<rparr>) = Some a1"
    and e: "edgeFaceMap a' = edgeFaceMap a1"
    and sh: "checkSharpAngles a8 = Some a'"
    and m8: "mesh a8 = mesh a" and e8: "edgeFaceMap a8 = edgeFaceMap a1"
    and d8: "minDihedralAngle (metrics a8) = minDihedralAngle (metrics a)"
      "maxDihedralAngle (metrics a8) = maxDihedralAngle (metrics a)"
    by (elim exE conjE) (rule that; assumption)
  have e1: "edgeFaceMap a1 = [(key, [0, 0])]" using b1 bt by auto
  have kv: "fst key < length (getVertices m)" "snd key < length (getVertices m)"
    using assms(3,4) by (simp_all add: key_def min_def max_def)
  have fv: "0 < length (getFaces m)" using f by simp
  obtain angle where c: "calculateDihedralAngle m 0 0 (fst key) (snd key) = Some angle"
    using calculateDihedralAngle_total[OF v[unfolded ma] fv fv kv] by blast
  have "minDihedralAngle (metrics a') = angle \<and> maxDihedralAngle (metrics a') = angle"
  proof (rule single_entry_sharp[OF _ _ _ _ sh])
    show "edgeFaceMap a8 = [(key, [0, 0])]" using e8 e1 by simp
    show "calculateDihedralAngle (mesh a8) 0 0 (fst key) (snd key) = Some angle"
      using c m8 ma by simp
    show "minDihedralAngle (metrics a8) = FLT_MAX" "maxDihedralAngle (metrics a8) = 0"
      using d8 ma by (simp_all add: initialMetrics_def)
  qed
  then show "\<exists>a' angle.
               analyzeQuality (MeshQualityAnalyzer m threshold) = Some a' \<and>
               edgeFaceMap a' = [((min va vb, max va vb), [0, 0])] \<and>
               calculateDihedralAngle m 0 0 (min va vb) (max va vb) = Some angle \<and>
               minDihedralAngle (getMetrics a') = angle \<and>
               maxDihedralAngle (getMetrics a') = angle"
    using run e e1 c unfolding a_def key_def getMetrics_def by auto
qed

section \<open>UV stretch in binary32 arithmetic\<close>

lemma quotient_ge_one:
  assumes "0 < u" "u \<le> s"
  shows "fle (Finite 1) (std_max (fdiv (Finite s) (Finite u)) (fdiv (Finite u) (Finite s)))"
    and "fle (Finite 1) (std_max (fdiv (Finite u) (Finite s)) (fdiv (Finite s) (Finite u)))"
proof -
  have s: "0 < s" using assms by linarith
  have "1 \<le> s / u" using assms by simp
  from round32_ge_one[OF this]
  consider "round32 (s / u) = PlusInfinity" | r where "round32 (s / u) = Finite r" "1 \<le> r"
    by blast
  note big = this
  have "0 \<le> u / s" "u / s \<le> pow2 0" using assms s by (simp_all add: pow2_def)
  from round32_le_pow2[OF this]
  obtain t where t: "round32 (u / s) = Finite t" "0 \<le> t" "t \<le> 1" by (auto simp: pow2_def)
  show "fle (Finite 1) (std_max (fdiv (Finite s) (Finite u)) (fdiv (Finite u) (Finite s)))"
    using big t assms(1) s by cases (auto simp: std_max_def)
  show "fle (Finite 1) (std_max (fdiv (Finite u) (Finite s)) (fdiv (Finite s) (Finite u)))"
    using big t assms(1) s by cases (auto simp: std_max_def)
qed

lemma stretch_ge_one:
  assumes "\<not> flt area (Finite EPSILON)" "\<not> flt uvArea (Finite EPSILON)"
    and "area \<noteq> NaN" "uvArea \<noteq> NaN" "\<not> (area = PlusInfinity \<and> uvArea = PlusInfinity)"
  shows "fle (Finite 1) (std_max (fdiv area uvArea) (fdiv uvArea area))"
proof -
  have e: "0 < EPSILON" by (simp add: EPSILON_def)
  have a: "area = PlusInfinity \<or> (\<exists>s. area = Finite s \<and> EPSILON \<le> s)"
    using assms(1,3) by (cases area) auto
  have u: "uvArea = PlusInfinity \<or> (\<exists>s. uvArea = Finite s \<and> EPSILON \<le> s)"
    using assms(2,4) by (cases uvArea) auto
  consider s t where "area = Finite s" "uvArea = Finite t" "EPSILON \<le> s" "EPSILON \<le> t"
    | s where "area = Finite s" "uvArea = PlusInfinity" "EPSILON \<le> s"
    | t where "area = PlusInfinity" "uvArea = Finite t" "EPSILON \<le> t"
    using a u assms(5) by blast
  then show ?thesis
  proof cases
    case 1
    have p: "0 < s" "0 < t" using 1(3,4) e by linarith+
    show ?thesis
    proof (cases "t \<le> s")
      case True
      then show ?thesis unfolding 1(1,2) using p by (intro quotient_ge_one)
    next
      case False
      then have "s \<le> t" by simp
      then show ?thesis unfolding 1(1,2) using p by (intro quotient_ge_one)
    qed
  next
    case 2
    then show ?thesis using e by (simp add: std_max_def)
  next
    case 3
    then show ?thesis using e by (simp add: std_max_def)
  qed
qed

lemma stretch_NaN:
  assumes "area = NaN \<or> uvArea = NaN \<or> (area = PlusInfinity \<and> uvArea = PlusInfinity)"
  shows "std_max (fdiv area uvArea) (fdiv uvArea area) = NaN"
proof -
  have "fdiv area uvArea = NaN"
    using assms by (cases area; cases uvArea) simp_all
  then show ?thesis by (simp add: std_max_def)
qed

text \<open>
  Claim C6, as amended.  For a face of the mesh whose vertex indices are valid,
  \<open>calculateUVStretch\<close> in binary32 arithmetic returns 0 if the face has fewer than 3 vertex
  indices or fewer than 3 texture-coordinate indices, or if the area of the triangle of its
  first three vertices or the area of the triangle of their texture coordinates (half the
  absolute value of the cross product) compares below \<open>1e-6f\<close>; otherwise it returns
  \<open>std::max\<close> of the quotients \<open>area / uvArea\<close> and \<open>uvArea / area\<close>.  The result is 0, or at
  least 1 (possibly \<open>+infinity\<close>), or NaN; it is 0 or at least 1 whenever neither area is NaN
  and the areas are not both infinite.  The texture coordinates are the members \<open>u\<close>, \<open>v\<close> of
  the face's first three vertices; \<open>texCoordIndices\<close> is only measured.
\<close>

theorem C6_uv_stretch:
  assumes "faceIdx < length (getFaces m)"
    and "\<forall>i \<in> set (vertexIndices (getFaces m ! faceIdx)). i < length (getVertices m)"
  shows "\<exists>stretch.
     calculateUVStretch32 m faceIdx = Some stretch \<and>
     (stretch = Finite 0 \<or> fle (Finite 1) stretch \<or> stretch = NaN) \<and>
     (let face = getFaces m ! faceIdx in
        (length (vertexIndices face) < 3 \<or> length (texCoordIndices face) < 3 \<longrightarrow>
           stretch = Finite 0) \<and>
        (3 \<le> length (vertexIndices face) \<and> 3 \<le> length (texCoordIndices face) \<longrightarrow>
           (\<exists>area.
              calculateTriangleArea32 m (vertexIndices face ! 0) (vertexIndices face ! 1)
                (vertexIndices face ! 2) = Some area \<and>
              (let v1 = getVertices m ! (vertexIndices face ! 0);
                   v2 = getVertices m ! (vertexIndices face ! 1);
                   v3 = getVertices m ! (vertexIndices face ! 2);
                   uvArea = fmul (Finite (1 / 2))
                     (fabs (fsub (fmul (fsub (Finite (tex_u v2)) (Finite (tex_u v1)))
                                       (fsub (Finite (tex_v v3)) (Finite (tex_v v1))))
                                 (fmul (fsub (Finite (tex_u v3)) (Finite (tex_u v1)))
                                       (fsub (Finite (tex_v v2)) (Finite (tex_v v1))))))
               in stretch = (if flt area (Finite EPSILON) \<or> flt uvArea (Finite EPSILON)
                             then Finite 0
                             else std_max (fdiv area uvArea) (fdiv uvArea area)) \<and>
                  (area \<noteq> NaN \<and> uvArea \<noteq> NaN \<and>
                   \<not> (area = PlusInfinity \<and> uvArea = PlusInfinity) \<longrightarrow>
                     stretch = Finite 0 \<or> fle (Finite 1) stretch)))))"
proof (cases "length (vertexIndices (getFaces m ! faceIdx)) < 3 \<or>
              length (texCoordIndices (getFaces m ! faceIdx)) < 3")
  case True
  then have "calculateUVStretch32 m faceIdx = Some (Finite 0)"
    using assms(1) by (auto simp: calculateUVStretch32_def)
  then show ?thesis using True by (auto simp: Let_def)
next
  case False
  define face where "face = getFaces m ! faceIdx"
  have l: "3 \<le> length (vertexIndices face)" "3 \<le> length (texCoordIndices face)"
    using False by (simp_all add: face_def)
  have n: "0 < length (vertexIndices face)" "1 < length (vertexIndices face)"
    "2 < length (vertexIndices face)"
    using l(1) by linarith+
  have "vertexIndices face ! 0 \<in> set (vertexIndices face)"
    "vertexIndices face ! 1 \<in> set (vertexIndices face)"
    "vertexIndices face ! 2 \<in> set (vertexIndices face)"
    using n by (simp_all only: nth_mem)
  then have v: "vertexIndices face ! 0 < length (getVertices m)"
    "vertexIndices face ! 1 < length (getVertices m)"
    "vertexIndices face ! 2 < length (getVertices m)"
    using assms(2) by (simp_all add: face_def)
  define v1 where "v1 = getVertices m ! (vertexIndices face ! 0)"
  define v2 where "v2 = getVertices m ! (vertexIndices face ! 1)"
  define v3 where "v3 = getVertices m ! (vertexIndices face ! 2)"
  define uvArea where "uvArea = fmul (Finite (1 / 2))
                     (fabs (fsub (fmul (fsub (Finite (tex_u v2)) (Finite (tex_u v1)))
                                       (fsub (Finite (tex_v v3)) (Finite (tex_v v1))))
                                 (fmul (fsub (Finite (tex_u v3)) (Finite (tex_u v1)))
                                       (fsub (Finite (tex_v v2)) (Finite (tex_v v1))))))"
  obtain area where ar: "calculateTriangleArea32 m (vertexIndices face ! 0) (vertexIndices face ! 1)
      (vertexIndices face ! 2) = Some area"
    using calculateTriangleArea32_Some[OF v] by blast
  define stretch where "stretch = (if flt area (Finite EPSILON) \<or> flt uvArea (Finite EPSILON)
                             then Finite 0
                             else std_max (fdiv area uvArea) (fdiv uvArea area))"
  have c: "calculateUVStretch32 m faceIdx = Some stretch"
    unfolding calculateUVStretch32_def
    using assms(1) False v ar
    by (simp add: face_def[symmetric] Let_def v1_def v2_def v3_def stretch_def uvArea_def
        del: fsub_Finite)
  have g: "stretch = Finite 0 \<or> fle (Finite 1) stretch"
    if "area \<noteq> NaN \<and> uvArea \<noteq> NaN \<and> \<not> (area = PlusInfinity \<and> uvArea = PlusInfinity)"
  proof (cases "flt area (Finite EPSILON) \<or> flt uvArea (Finite EPSILON)")
    case True
    then show ?thesis by (simp add: stretch_def)
  next
    case False
    then have "fle (Finite 1) (std_max (fdiv area uvArea) (fdiv uvArea area))"
      using that by (intro stretch_ge_one) simp_all
    then show ?thesis using False by (simp add: stretch_def)
  qed
  have t: "stretch = Finite 0 \<or> fle (Finite 1) stretch \<or> stretch = NaN"
  proof (cases "area = NaN \<or> uvArea = NaN \<or> (area = PlusInfinity \<and> uvArea = PlusInfinity)")
    case True
    then have "std_max (fdiv area uvArea) (fdiv uvArea area) = NaN" by (rule stretch_NaN)
    then show ?thesis by (simp add: stretch_def)
  next
    case False
    then show ?thesis using g by blast
  qed
  have "calculateUVStretch32 m faceIdx = Some stretch \<and>
     (stretch = Finite 0 \<or> fle (Finite 1) stretch \<or> stretch = NaN) \<and>
     (let face = getFaces m ! faceIdx in
        (length (vertexIndices face) < 3 \<or> length (texCoordIndices face) < 3 \<longrightarrow>
           stretch = Finite 0) \<and>
        (3 \<le> length (vertexIndices face) \<and> 3 \<le> length (texCoordIndices face) \<longrightarrow>
           (\<exists>area.
              calculateTriangleArea32 m (vertexIndices face ! 0) (vertexIndices face ! 1)
                (vertexIndices face ! 2) = Some area \<and>
              (let v1 = getVertices m ! (vertexIndices face ! 0);
                   v2 = getVertices m ! (vertexIndices face ! 1);
                   v3 = getVertices m ! (vertexIndices face ! 2);
                   uvArea = fmul (Finite (1 / 2))
                     (fabs (fsub (fmul (fsub (Finite (tex_u v2)) (Finite (tex_u v1)))
                                       (fsub (Finite (tex_v v3)) (Finite (tex_v v1))))
                                 (fmul (fsub (Finite (tex_u v3)) (Finite (tex_u v1)))
                                       (fsub (Finite (tex_v v2)) (Finite (tex_v v1))))))
               in stretch = (if flt area (Finite EPSILON) \<or> flt uvArea (Finite EPSILON)
                             then Finite 0
                             else std_max (fdiv area uvArea) (fdiv uvArea area)) \<and>
                  (area \<noteq> NaN \<and> uvArea \<noteq> NaN \<and>
                   \<not> (area = PlusInfinity \<and> uvArea = PlusInfinity) \<longrightarrow>
                     stretch = Finite 0 \<or> fle (Finite 1) stretch)))))"
    unfolding Let_def face_def[symmetric] v1_def[symmetric] v2_def[symmetric] v3_def[symmetric]
      uvArea_def[symmetric]
    using c t l ar g stretch_def by (intro conjI impI exI[of _ area]) simp_all
  then show ?thesis by blast
qed

text \<open>
  The claim C6 as stated, that the result is always 0 or at least 1, fails on a triangle
  with coordinates \<open>2^70\<close> and \<open>2^71\<close>: both products of the cross product overflow, their
  difference is NaN, so is the area, no comparison with NaN holds, and the function
  returns NaN.
\<close>

theorem C6_stretch_counterexample:
  "calculateTriangleArea32 hugeUVFace 0 1 2 = Some NaN \<and>
   calculateUVStretch32 hugeUVFace 0 = Some NaN \<and>
   NaN \<noteq> Finite 0 \<and> \<not> fle (Finite 1) NaN"
proof -
  have a: "calculateTriangleArea32 hugeUVFace 0 1 2 = Some NaN"
    by (simp add: calculateTriangleArea32_def hugeUVFace_def round32_huge round32_huge2
        fsub_def Let_def)
  have g: "getFaces hugeUVFace = [triangleFace 0 1 2]"
    "getVertices hugeUVFace =
         [\<lparr>pos_x = 0, pos_y = 0, pos_z = 0, norm_x = 0, norm_y = 0, norm_z = 1, tex_u = 0, tex_v = 0\<rparr>,
          \<lparr>pos_x = huge, pos_y = huge, pos_z = 0, norm_x = 0, norm_y = 0, norm_z = 1,
           tex_u = 1, tex_v = 0\<rparr>,
          \<lparr>pos_x = huge, pos_y = 2 * huge, pos_z = 0, norm_x = 0, norm_y = 0, norm_z = 1,
           tex_u = 0, tex_v = 1\<rparr>]"
    by (simp_all add: hugeUVFace_def)
  have "calculateUVStretch32 hugeUVFace 0 = Some NaN"
    unfolding calculateUVStretch32_def
    by (simp add: a[unfolded One_nat_def] g triangleFace_def Let_def round32_half
        EPSILON_def std_max_def)
  then show ?thesis using a by simp
qed

lemma unit_stretch32: "calculateUVStretch32 unitTriangle 0 = Some (Finite 1)"
proof -
  have a: "calculateTriangleArea32 unitTriangle 0 1 2 = Some (Finite (1 / 2))"
    by (simp add: calculateTriangleArea32_def unitTriangle_def round32_half Let_def)
  have g: "getFaces unitTriangle = [\<lparr>vertexIndices = [0, 1, 2], texCoordIndices = [0, 1, 2]\<rparr>]"
    "getVertices unitTriangle =
         [\<lparr>pos_x = 0, pos_y = 0, pos_z = 0, norm_x = 0, norm_y = 0, norm_z = 1, tex_u = 0, tex_v = 0\<rparr>,
          \<lparr>pos_x = 1, pos_y = 0, pos_z = 0, norm_x = 0, norm_y = 0, norm_z = 1, tex_u = 1, tex_v = 0\<rparr>,
          \<lparr>pos_x = 0, pos_y = 1, pos_z = 0, norm_x = 0, norm_y = 0, norm_z = 1, tex_u = 0, tex_v = 1\<rparr>]"
    by (simp_all add: unitTriangle_def)
  show ?thesis
    unfolding calculateUVStretch32_def
    by (simp add: a[unfolded One_nat_def] g Let_def round32_half EPSILON_def std_max_def)
qed

section \<open>Reporting\<close>

text \<open>
  Claim C9.  \<open>getIssuesByType\<close> returns the issues of \<open>getIssues\<close> whose type is the
  requested one, and \<open>getIssuesBySeverity\<close> those whose severity is at least the requested
  one (the comparison is \<open>>=\<close>), both in the order of \<open>getIssues\<close>.  Both are \<open>const\<close>
  member functions that build a fresh vector: they are functions of the analyzer that
  return the vector only, so the issue list and the metrics of the analyzer are what they
  were before the call.
\<close>

theorem C9_filters:
  "getIssuesByType a t = filter (\<lambda>issue. type issue = t) (getIssues a)
   \<and> getIssuesBySeverity a s = filter (\<lambda>issue. severity issue \<ge> s) (getIssues a)"
  by (simp add: getIssuesByType_def getIssuesBySeverity_def getIssues_def fold_push_back_filter)

section \<open>The unit right triangle\<close>

lemma unit_triangle_area:
  assumes "map position (getVertices m) = [(0, 0, 0), (1, 0, 0), (0, 1, 0)]"
  shows "calculateTriangleArea m 0 1 2 = Some (1 / 2)"
proof -
  obtain v0 v1 v2 where vs: "getVertices m = [v0, v1, v2]"
    and p: "position v0 = (0, 0, 0)" "position v1 = (1, 0, 0)" "position v2 = (0, 1, 0)"
    using assms by (auto simp: map_eq_Cons_conv)
  show ?thesis
    using p by (simp add: calculateTriangleArea_def vs position_def)
qed

lemma unit_triangle_ratio:
  assumes "map position (getVertices m) = [(0, 0, 0), (1, 0, 0), (0, 1, 0)]"
  shows "calculateAspectRatio m 0 1 2 = Some 2"
proof -
  obtain v0 v1 v2 where vs: "getVertices m = [v0, v1, v2]"
    and p: "position v0 = (0, 0, 0)" "position v1 = (1, 0, 0)" "position v2 = (0, 1, 0)"
    using assms by (auto simp: map_eq_Cons_conv)
  have d: "calculateDistance m 0 1 = Some 1" "calculateDistance m 1 2 = Some (sqrt 2)"
    "calculateDistance m 2 0 = Some 1"
    using p by (simp_all add: calculateDistance_def vs position_def)
  have s: "max 1 (max (sqrt 2) 1) = sqrt 2" by (simp add: max_def)
  have "calculateAspectRatio m 0 1 2 =
      Some (if (if 1 / 2 > EPSILON then 2 * (1 / 2) / sqrt 2 else 0) > EPSILON
            then sqrt 2 / (if 1 / 2 > EPSILON then 2 * (1 / 2) / sqrt 2 else 0) else FLT_MAX)"
    unfolding calculateAspectRatio_def d unit_triangle_area[OF assms] by (simp add: s)
  also have "\<dots> = Some 2"
  proof -
    have "sqrt 2 < 2" by (rule real_less_lsqrt) simp_all
    then have "1 / 2 < 1 / sqrt 2" by (simp add: field_simps)
    moreover have a: "EPSILON < 1 / 2" by (simp add: EPSILON_def)
    ultimately have h: "EPSILON < 1 / sqrt 2" by linarith
    have q: "2 * (1 / 2) / sqrt 2 = 1 / sqrt 2" "sqrt 2 / (1 / sqrt 2) = 2" by simp_all
    show ?thesis unfolding q using h a by simp
  qed
  finally show ?thesis .
qed

text \<open>
  Claim C8.  On a mesh whose vertices are at (0,0,0), (1,0,0) and (0,1,0), the triangle
  0, 1, 2 has area 0.5 and aspect ratio 2.0, each within 1e-4 (the longest edge is
  \<open>sqrt 2\<close>, the height on it \<open>1 / sqrt 2\<close>).
\<close>

theorem C8_unit_triangle:
  assumes "map position (getVertices m) = [(0, 0, 0), (1, 0, 0), (0, 1, 0)]"
  shows "\<exists>area ratio.
           calculateTriangleArea m 0 1 2 = Some area \<and> \<bar>area - 0.5\<bar> \<le> 1 / 10 ^ 4 \<and>
           calculateAspectRatio m 0 1 2 = Some ratio \<and> \<bar>ratio - 2.0\<bar> \<le> 1 / 10 ^ 4"
proof (intro exI conjI)
  show "calculateTriangleArea m 0 1 2 = Some (1 / 2)" by (rule unit_triangle_area[OF assms])
  show "calculateAspectRatio m 0 1 2 = Some 2" by (rule unit_triangle_ratio[OF assms])
qed simp_all

theorem C8_unit_triangle_witness:
  "map position (getVertices unitTriangle) = [(0, 0, 0), (1, 0, 0), (0, 1, 0)] \<and>
   (\<exists>area ratio.
      calculateTriangleArea unitTriangle 0 1 2 = Some area \<and> \<bar>area - 0.5\<bar> \<le> 1 / 10 ^ 4 \<and>
      calculateAspectRatio unitTriangle 0 1 2 = Some ratio \<and> \<bar>ratio - 2.0\<bar> \<le> 1 / 10 ^ 4)"
proof -
  have h: "map position (getVertices unitTriangle) = [(0, 0, 0), (1, 0, 0), (0, 1, 0)]"
    by (simp add: unitTriangle_def position_def)
  show ?thesis using h C8_unit_triangle[OF h] by simp
qed

section \<open>Instances\<close>

lemma quad_topology: "buildTopology (MeshQualityAnalyzer quadMesh (1 / 2)) = Some quadAnalyzer"
  by (simp add: buildTopology_def quadMesh_def quadAnalyzer_def MeshQualityAnalyzer_def
      topologyFace_def topologyEdge_def connect_def triangleFace_def upt_2 upt_3 pair_less_def
      Let_def)

lemma quad_angle: "calculateDihedralAngle quadMesh 0 1 0 2 = Some (pi * 180 / M_PI)"
  by (simp add: calculateDihedralAngle_def quadMesh_def triangleFace_def vertexAt_def
      firstNonShared_def EPSILON_def Let_def)

lemma segment_angle: "calculateDihedralAngle twoVertexFace 0 0 0 1 = Some (pi / 2 * 180 / M_PI)"
  by (simp add: calculateDihedralAngle_def twoVertexFace_def vertexAt_def
      firstNonShared_def EPSILON_def Let_def)

theorem C10_two_vertex_face_witness:
  "vertexIndices (getFaces twoVertexFace ! 0) = [0, 1] \<and> (0::nat) \<noteq> 1 \<and>
   0 < length (getVertices twoVertexFace) \<and> 1 < length (getVertices twoVertexFace) \<and>
   getFaces twoVertexFace = [getFaces twoVertexFace ! 0] \<and>
   (\<exists>a'. analyzeQuality (MeshQualityAnalyzer twoVertexFace (1 / 2)) = Some a' \<and>
          edgeFaceMap a' = [((0, 1), [0, 0])] \<and>
          calculateDihedralAngle twoVertexFace 0 0 0 1 = Some (pi / 2 * 180 / M_PI) \<and>
          minDihedralAngle (getMetrics a') = pi / 2 * 180 / M_PI \<and>
          maxDihedralAngle (getMetrics a') = pi / 2 * 180 / M_PI)"
proof -
  have h: "vertexIndices (getFaces twoVertexFace ! 0) = [0, 1]" "(0::nat) \<noteq> 1"
    "0 < length (getVertices twoVertexFace)" "1 < length (getVertices twoVertexFace)"
    by (simp_all add: twoVertexFace_def)
  have f: "getFaces twoVertexFace = [getFaces twoVertexFace ! 0]"
    by (simp add: twoVertexFace_def)
  from C10_two_vertex_face[OF h, of "1 / 2"] f
  obtain a' angle where
    "analyzeQuality (MeshQualityAnalyzer twoVertexFace (1 / 2)) = Some a'"
    "edgeFaceMap a' = [((min 0 1, max 0 1), [0, 0])]"
    "calculateDihedralAngle twoVertexFace 0 0 (min 0 1) (max 0 1) = Some angle"
    "minDihedralAngle (getMetrics a') = angle" "maxDihedralAngle (getMetrics a') = angle"
    by blast
  then show ?thesis using h f segment_angle by auto
qed

theorem C3_min_dihedral_update_witness:
  "validMesh (mesh quadAnalyzer) \<and>
   topologyValid (length (getVertices (mesh quadAnalyzer))) (length (getFaces (mesh quadAnalyzer)))
     (edgeFaceMap quadAnalyzer) \<and>
   (\<exists>a'. checkSharpAngles quadAnalyzer = Some a' \<and>
          manifoldAngles (mesh quadAnalyzer) (edgeFaceMap quadAnalyzer) = Some [pi * 180 / M_PI] \<and>
          minDihedralAngle (metrics quadAnalyzer) = FLT_MAX \<and>
          minDihedralAngle (metrics a') = pi * 180 / M_PI)"
proof -
  have m: "mesh quadAnalyzer = quadMesh"
    by (simp add: quadAnalyzer_def MeshQualityAnalyzer_def)
  have v: "validMesh (mesh quadAnalyzer)"
    by (simp add: m validMesh_def quadMesh_def triangleFace_def)
  have e: "edgeFaceMap quadAnalyzer =
      [((0, 1), [0]), ((0, 2), [0, 1]), ((0, 3), [1]), ((1, 2), [0]), ((2, 3), [1])]"
    by (simp add: quadAnalyzer_def)
  have t: "topologyValid (length (getVertices (mesh quadAnalyzer)))
      (length (getFaces (mesh quadAnalyzer))) (edgeFaceMap quadAnalyzer)"
    unfolding m e by (simp add: topologyValid_def quadMesh_def)
  have an: "manifoldAngles (mesh quadAnalyzer) (edgeFaceMap quadAnalyzer) = Some [pi * 180 / M_PI]"
    unfolding m e by (simp add: manifoldAngles_def quad_angle[unfolded One_nat_def])
  have i: "minDihedralAngle (metrics quadAnalyzer) = FLT_MAX"
    by (simp add: quadAnalyzer_def MeshQualityAnalyzer_def initialMetrics_def)
  from C3_min_dihedral_update[OF v t] an
  obtain a' where s: "checkSharpAngles quadAnalyzer = Some a'"
    and f: "minDihedralAngle (metrics a') =
      foldl (\<lambda>stored angle. if angle < stored \<or> stored < 0.1 then angle else stored)
        (minDihedralAngle (metrics quadAnalyzer)) [pi * 180 / M_PI]"
    and r: "(if pi * 180 / M_PI < FLT_MAX \<or> FLT_MAX < 0.1 then pi * 180 / M_PI else FLT_MAX)
      = pi * 180 / M_PI"
    by auto
  have "minDihedralAngle (metrics a') = pi * 180 / M_PI"
    using f r unfolding i by simp
  then show ?thesis using v t s an i by blast
qed

lemma fan_topology:
  "buildTopology ((MeshQualityAnalyzer fanMesh (1 / 2))\<lparr>issues := []\<rparr>) =
     Some ((MeshQualityAnalyzer fanMesh (1 / 2))
       \<lparr>edgeFaceMap := [((0, 1), [0, 1, 2]), ((0, 2), [0]), ((0, 3), [1]), ((0, 4), [2]),
                        ((1, 2), [0]), ((1, 3), [1]), ((1, 4), [2])],
        vertexConnectivity := [[1, 2, 3, 4], [0, 2, 3, 4], [1, 0], [1, 0], [1, 0]]\<rparr>)"
  by (simp add: buildTopology_def fanMesh_def MeshQualityAnalyzer_def topologyFace_def
      topologyEdge_def connect_def triangleFace_def upt_3 pair_less_def Let_def)

theorem C5_non_manifold_edges_witness:
  "validMesh (mesh (MeshQualityAnalyzer fanMesh (1 / 2))) \<and>
   (\<exists>a'. analyzeQuality (MeshQualityAnalyzer fanMesh (1 / 2)) = Some a' \<and>
          ((0, 1), [0, 1, 2]) \<in> set (edgeFaceMap a') \<and>
          filter (\<lambda>issue. type issue = NON_MANIFOLD_EDGE \<and> elementIndex issue = 0 \<and>
                           relatedElements issue = [1]) (getIssues a')
            = [\<lparr>type = NON_MANIFOLD_EDGE, elementIndex = 0, severity = 0.25,
                 relatedElements = [1]\<rparr>] \<and>
          nonManifoldEdgeCount (getMetrics a') = 1)"
proof -
  define a where "a = MeshQualityAnalyzer fanMesh (1 / 2)"
  have m: "mesh a = fanMesh" "nonManifoldEdgeCount (getMetrics a) = 0"
    by (simp_all add: a_def MeshQualityAnalyzer_def getMetrics_def initialMetrics_def)
  have v: "validMesh (mesh a)"
    by (simp add: m validMesh_def fanMesh_def triangleFace_def)
  from C5_non_manifold_edges[OF v]
  obtain a' where run: "analyzeQuality a = Some a'"
    and one: "\<And>edge fs. (edge, fs) \<in> set (edgeFaceMap a') \<Longrightarrow> length fs > 2 \<Longrightarrow>
        filter (\<lambda>issue. type issue = NON_MANIFOLD_EDGE \<and> elementIndex issue = fst edge \<and>
                         relatedElements issue = [snd edge]) (getIssues a')
          = [\<lparr>type = NON_MANIFOLD_EDGE, elementIndex = fst edge,
               severity = min 1 ((real (length fs) - 2) / 4),
               relatedElements = [snd edge]\<rparr>]"
    and cnt: "nonManifoldEdgeCount (getMetrics a') =
       nonManifoldEdgeCount (getMetrics a) +
       length (filter (\<lambda>entry. length (snd entry) > 2) (edgeFaceMap a'))"
    by blast
  from analyzeQuality_run[OF v]
  obtain a'' a1 where run': "analyzeQuality a = Some a''"
    and b1: "buildTopology (a\<lparr>issues := []\<rparr>) = Some a1"
    and e: "edgeFaceMap a'' = edgeFaceMap a1"
    by (elim exE conjE) (rule that; assumption)
  have efm: "edgeFaceMap a' = [((0, 1), [0, 1, 2]), ((0, 2), [0]), ((0, 3), [1]), ((0, 4), [2]),
                        ((1, 2), [0]), ((1, 3), [1]), ((1, 4), [2])]"
    using run run' e b1 fan_topology unfolding a_def by auto
  have mem: "((0, 1), [0, 1, 2]) \<in> set (edgeFaceMap a')" by (simp add: efm)
  have "filter (\<lambda>issue. type issue = NON_MANIFOLD_EDGE \<and> elementIndex issue = 0 \<and>
                           relatedElements issue = [1]) (getIssues a')
            = [\<lparr>type = NON_MANIFOLD_EDGE, elementIndex = 0, severity = 0.25,
                 relatedElements = [1]\<rparr>]"
    using one[OF mem] by simp
  moreover have "nonManifoldEdgeCount (getMetrics a') = 1"
    unfolding cnt m(2) by (simp add: efm)
  ultimately show ?thesis
    unfolding a_def[symmetric] using v run mem by blast
qed


theorem C6_uv_stretch_witness:
  "0 < length (getFaces unitTriangle) \<and>
   calculateUVStretch32 unitTriangle 0 = Some (Finite 1) \<and>
   (\<exists>stretch. calculateUVStretch32 unitTriangle 0 = Some stretch \<and>
      (stretch = Finite 0 \<or> fle (Finite 1) stretch \<or> stretch = NaN))"
proof -
  have h1: "0 < length (getFaces unitTriangle)" by (simp add: unitTriangle_def)
  have h2: "\<forall>i \<in> set (vertexIndices (getFaces unitTriangle ! 0)).
      i < length (getVertices unitTriangle)"
    by (simp add: unitTriangle_def)
  show ?thesis using h1 unit_stretch32 C6_uv_stretch[OF h1 h2] by blast
qed

theorem C4_overlapping_pair_witness:
  "validMesh (mesh (MeshQualityAnalyzer pairMesh (1 / 2))) \<and> (0::nat) < 2 \<and>
   2 < length (getVertices (mesh (MeshQualityAnalyzer pairMesh (1 / 2)))) \<and>
   position (getVertices (mesh (MeshQualityAnalyzer pairMesh (1 / 2))) ! 0) =
     position (getVertices (mesh (MeshQualityAnalyzer pairMesh (1 / 2))) ! 2) \<and>
   (\<exists>a'. analyzeQuality (MeshQualityAnalyzer pairMesh (1 / 2)) = Some a' \<and>
          getIssuesByType a' OVERLAPPING_VERTICES =
            [\<lparr>type = OVERLAPPING_VERTICES, elementIndex = 0, severity = 1.0,
              relatedElements = [2]\<rparr>])"
proof -
  define a where "a = MeshQualityAnalyzer pairMesh (1 / 2)"
  have m: "mesh a = pairMesh" by (simp add: a_def MeshQualityAnalyzer_def)
  have h1: "validMesh (mesh a)"
    by (simp add: m validMesh_def pairMesh_def triangleFace_def)
  have h2: "(0::nat) < 2" by simp
  have h3: "2 < length (getVertices (mesh a))" by (simp add: m pairMesh_def)
  have h4: "position (getVertices (mesh a) ! 0) = position (getVertices (mesh a) ! 2)"
    by (simp add: m pairMesh_def)
  have h5: "\<forall>p q. p < q \<and> q < length (getVertices (mesh a)) \<and> (p, q) \<noteq> (0, 2) \<longrightarrow>
      \<not> flt (computedDistSq (getVertices (mesh a) ! p) (getVertices (mesh a) ! q))
             (fmul (Finite OVERLAP_THRESHOLD) (Finite OVERLAP_THRESHOLD))"
  proof (intro allI impI)
    fix p q :: nat
    assume "p < q \<and> q < length (getVertices (mesh a)) \<and> (p, q) \<noteq> (0, 2)"
    then have "(p = 0 \<and> q = 1) \<or> (p = 1 \<and> q = 2)"
      by (auto simp: m pairMesh_def)
    then show "\<not> flt (computedDistSq (getVertices (mesh a) ! p) (getVertices (mesh a) ! q))
             (fmul (Finite OVERLAP_THRESHOLD) (Finite OVERLAP_THRESHOLD))"
      unfolding overlapLimit_def[symmetric] overlapLimit_value
      by (auto simp: m pairMesh_def computedDistSq_def vertexAt_def)
  qed
  show ?thesis
    unfolding a_def[symmetric]
    using h1 h2 h3 h4 C4_overlapping_pair[OF h1 h2 h3 h4 h5] by simp
qed

end
